theory Spec2Isabelle
  imports Main "HOL-Library.AList" "HOL-Library.Multiset"
begin

section \<open>The synchronizer of Vault secrets into Kubernetes secrets\<close>

text \<open>
  A shallow embedding of \<^verbatim>\<open>cmd/synchronizer/main.go\<close>. The program talks to two
  external services through client libraries whose code is not part of the repository:
  \<^item> the Vault server, read through \<^verbatim>\<open>vaultClient.Logical().Read\<close>. It is a field of the
    configuration: a function from the token and the path to what \<^verbatim>\<open>Read\<close> returns, an
    error or a possibly nil secret;
  \<^item> the Kubernetes API server, used through \<^verbatim>\<open>Get\<close>, \<^verbatim>\<open>Create\<close>, \<^verbatim>\<open>Update\<close>,
    \<^verbatim>\<open>Delete\<close> and \<^verbatim>\<open>List\<close> on the secrets of a namespace. It is a part of the state
    \<open>world\<close>: per namespace the list of stored secrets, and a script of faults; every
    call takes the next entry of the script and fails with it when it is a fault.
  Go's \<^verbatim>\<open>range\<close> over a map yields the entries in an order that is not specified; the
  functions that range over \<^verbatim>\<open>c.Secrets\<close> take the order as an argument.
\<close>

subsection \<open>Errors, log lines, outcomes\<close>

datatype fault = Forbidden | Unavailable

datatype api_status = NotFound | AlreadyExists | Failure fault

datatype error =
    Errorf string
  | Status api_status
  | External string
  | Wrap error string

text \<open>\<^verbatim>\<open>apierr.IsNotFound\<close>: the error is an API status whose reason is not-found.\<close>

fun IsNotFound :: "error option \<Rightarrow> bool" where
  "IsNotFound (Some (Status NotFound)) = True"
| "IsNotFound _ = False"

text \<open>One constructor for each call of the \<^verbatim>\<open>log\<close> package in the source.\<close>

datatype log_entry =
    LogFatalConfig error
  | LogFatal error
  | LogDegraded error
  | LogSynchronized
  | LogCheck string string
  | LogRead string
  | LogCreate string string
  | LogUpdate string string
  | LogCleanupFailed error
  | LogDelete string
  | LogDeleteFailed error

text \<open>
  How a call of \<^verbatim>\<open>synchronize\<close> ends: it returns (nil or an error), it panics (a nil
  dereference or a failed type assertion), or it ends the process with \<^verbatim>\<open>os.Exit\<close>.
\<close>

datatype outcome = Returned "error option" | Panicked | Exited nat

subsection \<open>Data\<close>

type_synonym addr = nat

text \<open>
  \<^verbatim>\<open>corev1.Secret\<close>, with the three fields the program uses. A Go map is a reference: the
  secret that \<^verbatim>\<open>synchronize\<close> builds holds in \<open>Annotations\<close> the address of a map in the
  heap of the process (\<open>addr Secret\<close>). What the API server stores and returns is the
  serialised value, with the contents of the map (\<open>(string \<rightharpoonup> string) Secret\<close>).
\<close>

record 'a Secret =
  Name :: string
  Data :: "string \<rightharpoonup> string"
  Annotations :: 'a

type_synonym k8s_secret = "(string \<rightharpoonup> string) Secret"

text \<open>
  The payload of a Vault secret is dynamically typed: \<^verbatim>\<open>s.Data\<close> maps a key to any value
  (\<open>field\<close>), which the program asserts to be a map, whose values (\<open>dyn\<close>) it asserts to
  be strings. The inner map is given as the list of its entries in the order the
  conversion loop ranges over it.
\<close>

datatype dyn = DString string | DOther

datatype field = FMap "(string \<times> dyn) list" | FOther

record vault_secret =
  VData :: "string \<rightharpoonup> field"

record config =
  VaultTokenPath :: string
  Secrets :: "(string \<times> string) list"
  Namespace :: string
  vaultClient :: "string \<Rightarrow> string \<Rightarrow> error + vault_secret option"

text \<open>
  \<open>Secrets\<close> is the Go map \<^verbatim>\<open>map[string]string\<close> as the list of its entries, written with
  \<open>AList.update\<close> and read with \<open>map_of\<close>; its length is \<^verbatim>\<open>len(c.Secrets)\<close>. The keys of a
  map are distinct, and an execution of \<^verbatim>\<open>range c.Secrets\<close> yields the entries once
  each, in any order: \<open>range_of m kvs\<close> says that \<open>kvs\<close> is such an order of the map \<open>m\<close>.
\<close>

definition range_of :: "('k \<times> 'v) list \<Rightarrow> ('k \<times> 'v) list \<Rightarrow> bool" where
  "range_of m kvs \<longleftrightarrow> distinct (map fst m) \<and> mset kvs = mset m"

record world =
  store :: "string \<Rightarrow> k8s_secret list"
  faults :: "fault option list"
  logs :: "log_entry list"
  heap :: "addr \<Rightarrow> (string \<rightharpoonup> string)"
  allocated :: nat

text \<open>
  What \<^verbatim>\<open>newFromEnvironment\<close> and \<^verbatim>\<open>loadToken\<close> get from outside: the variables of the
  environment, the files, the results of the constructors of the two clients, and the
  library function \<^verbatim>\<open>strings.TrimSpace\<close>.
\<close>

record environment =
  Getenv :: "string \<Rightarrow> string"
  ReadFile :: "string \<Rightarrow> error + string"
  InClusterConfig :: "error option"
  NewForConfig :: "error option"
  ReadEnvironment :: "error option"
  NewClient :: "error + (string \<Rightarrow> string \<Rightarrow> error + vault_secret option)"
  TrimSpace :: "string \<Rightarrow> string"

definition vaultAnnotation :: string where
  "vaultAnnotation = ''vault-secret''"

subsection \<open>The process: log and heap\<close>

definition println :: "log_entry \<Rightarrow> world \<Rightarrow> world" where
  "println e w = w\<lparr>logs := logs w @ [e]\<rparr>"

text \<open>\<^verbatim>\<open>make(map[string]string)\<close>: a new empty map at an address not used before.\<close>

definition make_map :: "world \<Rightarrow> addr \<times> world" where
  "make_map w =
     (allocated w, w\<lparr>heap := (heap w)(allocated w := Map.empty), allocated := Suc (allocated w)\<rparr>)"

text \<open>\<^verbatim>\<open>m[k] = v\<close> on the map at address \<open>a\<close>.\<close>

definition map_assign :: "addr \<Rightarrow> string \<Rightarrow> string \<Rightarrow> world \<Rightarrow> world" where
  "map_assign a k v w = w\<lparr>heap := (heap w)(a := (heap w a)(k \<mapsto> v))\<rparr>"

text \<open>What a client call sends for a secret: its fields, with the contents of its maps.\<close>

definition marshal :: "world \<Rightarrow> addr Secret \<Rightarrow> k8s_secret" where
  "marshal w s = \<lparr>Name = Name s, Data = Data s, Annotations = heap w (Annotations s)\<rparr>"

subsection \<open>The Kubernetes API server\<close>

definition take_fault :: "world \<Rightarrow> fault option \<times> world" where
  "take_fault w = (case faults w of [] \<Rightarrow> (None, w) | f # fs \<Rightarrow> (f, w\<lparr>faults := fs\<rparr>))"

definition lookup :: "k8s_secret list \<Rightarrow> string \<Rightarrow> k8s_secret option" where
  "lookup objs n = find (\<lambda>s. Name s = n) objs"

definition set_store :: "string \<Rightarrow> k8s_secret list \<Rightarrow> world \<Rightarrow> world" where
  "set_store ns objs w = w\<lparr>store := (store w)(ns := objs)\<rparr>"

definition k8s_Get :: "string \<Rightarrow> string \<Rightarrow> world \<Rightarrow> (k8s_secret option \<times> error option) \<times> world" where
  "k8s_Get ns n w =
     (case take_fault w of
        (Some f, w') \<Rightarrow> ((None, Some (Status (Failure f))), w')
      | (None, w') \<Rightarrow>
          (case lookup (store w' ns) n of
             None \<Rightarrow> ((None, Some (Status NotFound)), w')
           | Some s \<Rightarrow> ((Some s, None), w')))"

definition k8s_Create :: "string \<Rightarrow> k8s_secret \<Rightarrow> world \<Rightarrow> error option \<times> world" where
  "k8s_Create ns s w =
     (case take_fault w of
        (Some f, w') \<Rightarrow> (Some (Status (Failure f)), w')
      | (None, w') \<Rightarrow>
          (if lookup (store w' ns) (Name s) \<noteq> None then (Some (Status AlreadyExists), w')
           else (None, set_store ns (store w' ns @ [s]) w')))"

definition k8s_Update :: "string \<Rightarrow> k8s_secret \<Rightarrow> world \<Rightarrow> error option \<times> world" where
  "k8s_Update ns s w =
     (case take_fault w of
        (Some f, w') \<Rightarrow> (Some (Status (Failure f)), w')
      | (None, w') \<Rightarrow>
          (if lookup (store w' ns) (Name s) = None then (Some (Status NotFound), w')
           else (None, set_store ns (map (\<lambda>t. if Name t = Name s then s else t) (store w' ns)) w')))"

definition k8s_Delete :: "string \<Rightarrow> string \<Rightarrow> world \<Rightarrow> error option \<times> world" where
  "k8s_Delete ns n w =
     (case take_fault w of
        (Some f, w') \<Rightarrow> (Some (Status (Failure f)), w')
      | (None, w') \<Rightarrow>
          (if lookup (store w' ns) n = None then (Some (Status NotFound), w')
           else (None, set_store ns (filter (\<lambda>t. Name t \<noteq> n) (store w' ns)) w')))"

definition k8s_List :: "string \<Rightarrow> world \<Rightarrow> (error + k8s_secret list) \<times> world" where
  "k8s_List ns w =
     (case take_fault w of
        (Some f, w') \<Rightarrow> (Inl (Status (Failure f)), w')
      | (None, w') \<Rightarrow> (Inr (store w' ns), w'))"

subsection \<open>Library functions: \<^verbatim>\<open>strings.Split\<close> and \<^verbatim>\<open>path.Base\<close>\<close>

text \<open>\<^verbatim>\<open>strings.Split(s, sep)\<close> for a separator of one byte: never an empty list.\<close>

fun Split :: "string \<Rightarrow> char \<Rightarrow> string list" where
  "Split [] d = [[]]"
| "Split (c # cs) d =
     (if c = d then [] # Split cs d
      else (case Split cs d of [] \<Rightarrow> [[c]] | t # ts \<Rightarrow> (c # t) # ts))"

text \<open>
  \<^verbatim>\<open>path.Base\<close>: \<^verbatim>\<open>"."\<close> for the empty path; otherwise the trailing slashes are removed,
  then everything up to the last slash; \<^verbatim>\<open>"/"\<close> when nothing is left.
\<close>

definition Base :: "string \<Rightarrow> string" where
  "Base p =
     (if p = [] then ''.''
      else (let q = rev (dropWhile (\<lambda>c. c = CHR ''/'') (rev p));
                r = rev (takeWhile (\<lambda>c. c \<noteq> CHR ''/'') (rev q))
            in if r = [] then ''/'' else r))"

text \<open>
  \<^verbatim>\<open>strings.TrimSpace\<close> strips the white space of Unicode at both ends; it is used for the
  name of the namespace only and is a field of the environment. For a string of ASCII
  it is the function \<open>trim_ascii\<close>, which the examples use.
\<close>

definition is_space :: "char \<Rightarrow> bool" where
  "is_space c \<longleftrightarrow> c \<in> set [CHR 0x09, CHR 0x0A, CHR 0x0B, CHR 0x0C, CHR 0x0D, CHR '' '']"

definition trim_ascii :: "string \<Rightarrow> string" where
  "trim_ascii s = rev (dropWhile is_space (rev (dropWhile is_space s)))"

subsection \<open>\<^verbatim>\<open>newFromEnvironment\<close> and \<^verbatim>\<open>loadToken\<close>\<close>

text \<open>The loop over the items of \<^verbatim>\<open>VAULT_SECRETS\<close>.\<close>

fun parse_items :: "string list \<Rightarrow> (string \<times> string) list \<Rightarrow> (string \<times> string) list" where
  "parse_items [] m = m"
| "parse_items (item # items) m =
     (if length item = 0 then parse_items items m
      else (let s = Split item CHR '':'';
                k = (if length s > 1 then s ! 1 else Base (s ! 0))
            in parse_items items (AList.update k (s ! 0) m)))"

definition newFromEnvironment :: "environment \<Rightarrow> error + config" where
  "newFromEnvironment env =
     (if Getenv env ''VAULT_TOKEN_PATH'' = [] then Inl (Errorf ''missing VAULT_TOKEN_PATH'')
      else (let secrets = parse_items (Split (Getenv env ''VAULT_SECRETS'') CHR '','') [] in
        if length secrets = 0 then Inl (Errorf ''no secrets to synchronize - check VAULT_SECRETS'')
        else (case ReadFile env ''/var/run/secrets/kubernetes.io/serviceaccount/namespace'' of
          Inl err \<Rightarrow> Inl (Wrap err ''could not get namespace'')
        | Inr content \<Rightarrow>
           (case InClusterConfig env of
              Some err \<Rightarrow> Inl (Wrap err ''failed to get k8s config'')
            | None \<Rightarrow>
               (case NewForConfig env of
                  Some err \<Rightarrow> Inl (Wrap err ''failed to get k8s k8sClientset'')
                | None \<Rightarrow>
                   (case ReadEnvironment env of
                      Some err \<Rightarrow> Inl (Wrap err ''failed to read environment for vault'')
                    | None \<Rightarrow>
                       (case NewClient env of
                          Inl err \<Rightarrow> Inl (Wrap err ''failed to create vault client'')
                        | Inr client \<Rightarrow>
                            Inr \<lparr>VaultTokenPath = Getenv env ''VAULT_TOKEN_PATH'',
                                 Secrets = secrets,
                                 Namespace = TrimSpace env content,
                                 vaultClient = client\<rparr>)))))))"

definition loadToken :: "environment \<Rightarrow> config \<Rightarrow> error + string" where
  "loadToken env c =
     (case ReadFile env (VaultTokenPath c) of
        Inl err \<Rightarrow> Inl (Wrap err ''could not get vault token'')
      | Inr content \<Rightarrow> Inr content)"

subsection \<open>\<^verbatim>\<open>checkSecrets\<close>\<close>

fun checkSecrets :: "config \<Rightarrow> (string \<times> string) list \<Rightarrow> world \<Rightarrow> error option \<times> world" where
  "checkSecrets c [] w = (None, w)"
| "checkSecrets c ((k, v) # kvs) w =
     (case k8s_Get (Namespace c) k (println (LogCheck k v) w) of
        ((_, Some err), w') \<Rightarrow> (Some (Errorf (''secret '' @ k @ '' does not exist'')), w')
      | ((_, None), w') \<Rightarrow> checkSecrets c kvs w')"

subsection \<open>\<^verbatim>\<open>synchronize\<close>\<close>

text \<open>The conversion of the payload: \<^verbatim>\<open>data[k] = []byte(v.(string))\<close>; None is the panic.\<close>

fun convert_loop :: "(string \<times> dyn) list \<Rightarrow> (string \<rightharpoonup> string) \<Rightarrow> (string \<rightharpoonup> string) option" where
  "convert_loop [] data = Some data"
| "convert_loop ((k, DString v) # kvs) data = convert_loop kvs (data(k \<mapsto> v))"
| "convert_loop ((k, DOther) # kvs) data = None"

definition convert_data :: "vault_secret option \<Rightarrow> (string \<rightharpoonup> string) option" where
  "convert_data s =
     (case s of
        None \<Rightarrow> None
      | Some s' \<Rightarrow>
         (case VData s' ''data'' of
            Some (FMap kvs) \<Rightarrow> convert_loop kvs Map.empty
          | _ \<Rightarrow> None))"

text \<open>
  The body of the first loop, for the entry \<open>(k, v)\<close>; \<open>annotations\<close> is the address of the
  map made before the loop. The result is None when the loop goes on.
\<close>

definition sync_entry ::
  "config \<Rightarrow> string \<Rightarrow> addr \<Rightarrow> string \<times> string \<Rightarrow> world \<Rightarrow> outcome option \<times> world" where
  "sync_entry c token annotations kv w =
     (let k = fst kv; v = snd kv; w1 = println (LogRead v) w in
      case vaultClient c token v of
        Inl err \<Rightarrow> (Some (Returned (Some err)), w1)
      | Inr s \<Rightarrow>
         (case convert_data s of
            None \<Rightarrow> (Some Panicked, w1)
          | Some data \<Rightarrow>
             (let w2 = map_assign annotations vaultAnnotation v w1;
                  secret = \<lparr>Name = k, Data = data, Annotations = annotations\<rparr>
              in case k8s_Get (Namespace c) (Name secret) w2 of
                ((_, err), w3) \<Rightarrow>
                  if IsNotFound err then
                    (case k8s_Create (Namespace c) (marshal w3 secret)
                            (println (LogCreate (Name secret) v) w3) of
                       (Some err', w4) \<Rightarrow> (Some (Returned (Some err')), w4)
                     | (None, w4) \<Rightarrow> (None, w4))
                  else
                    (case k8s_Update (Namespace c) (marshal w3 secret)
                            (println (LogUpdate (Name secret) v) w3) of
                       (Some err', w4) \<Rightarrow> (Some (Returned (Some err')), w4)
                     | (None, w4) \<Rightarrow> (None, w4)))))"

fun sync_loop ::
  "config \<Rightarrow> string \<Rightarrow> addr \<Rightarrow> (string \<times> string) list \<Rightarrow> world \<Rightarrow> outcome option \<times> world" where
  "sync_loop c token annotations [] w = (None, w)"
| "sync_loop c token annotations (kv # kvs) w =
     (case sync_entry c token annotations kv w of
        (Some out, w') \<Rightarrow> (Some out, w')
      | (None, w') \<Rightarrow> sync_loop c token annotations kvs w')"

text \<open>The second loop, over the items of the list.\<close>

fun delete_loop :: "config \<Rightarrow> k8s_secret list \<Rightarrow> world \<Rightarrow> world" where
  "delete_loop c [] w = w"
| "delete_loop c (s # ss) w =
     (if Annotations s vaultAnnotation = None then delete_loop c ss w
      else if map_of (Secrets c) (Name s) \<noteq> None then delete_loop c ss w
      else (case k8s_Delete (Namespace c) (Name s) (println (LogDelete (Name s)) w) of
              (Some err, w') \<Rightarrow>
                delete_loop c ss
                  (println (LogDeleteFailed
                     (Wrap err (''delete obsolete vault secret '' @ Name s @ '' failed''))) w')
            | (None, w') \<Rightarrow> delete_loop c ss w'))"

definition cleanup :: "config \<Rightarrow> world \<Rightarrow> outcome \<times> world" where
  "cleanup c w =
     (case k8s_List (Namespace c) w of
        (Inl err, w') \<Rightarrow>
          (Exited 0, println (LogCleanupFailed (Wrap err ''cleanup of unused vault secrets failed'')) w')
      | (Inr items, w') \<Rightarrow> (Returned None, delete_loop c items w'))"

definition synchronize ::
  "config \<Rightarrow> (string \<times> string) list \<Rightarrow> string \<Rightarrow> world \<Rightarrow> outcome \<times> world" where
  "synchronize c kvs token w =
     (case make_map w of
        (annotations, w0) \<Rightarrow>
          (case sync_loop c token annotations kvs w0 of
             (Some out, w') \<Rightarrow> (out, w')
           | (None, w') \<Rightarrow> cleanup c w'))"

subsection \<open>\<^verbatim>\<open>main\<close>\<close>

text \<open>
  The exit status of the process and the final state. \<^verbatim>\<open>log.Fatal\<close> exits with 1, a panic
  with 2. \<open>kvs\<close> is the order of the one \<^verbatim>\<open>range c.Secrets\<close> that the run executes.
\<close>

definition main :: "environment \<Rightarrow> (string \<times> string) list \<Rightarrow> world \<Rightarrow> nat \<times> world" where
  "main env kvs w =
     (case newFromEnvironment env of
        Inl err \<Rightarrow> (1, println (LogFatalConfig (Wrap err ''failed to get config'')) w)
      | Inr c \<Rightarrow>
         (case loadToken env c of
            Inl err \<Rightarrow>
              (case checkSecrets c kvs w of
                 (Some err', w') \<Rightarrow> (1, println (LogFatal err') w')
               | (None, w') \<Rightarrow>
                   (0, println (LogDegraded (Wrap err (''cannot synchronize secrets - all secrets seems '' @
                        ''to be available therefore pod creation will continue''))) w'))
          | Inr token \<Rightarrow>
              (case synchronize c kvs token w of
                 (Returned (Some err), w') \<Rightarrow>
                   (1, println (LogFatal (Wrap err ''failed to synchronize secrets'')) w')
               | (Returned None, w') \<Rightarrow> (0, println LogSynchronized w')
               | (Panicked, w') \<Rightarrow> (2, w')
               | (Exited n, w') \<Rightarrow> (n, w'))))"

subsection \<open>Notions used in the statements\<close>

text \<open>The names of the secrets of a list that carry the annotation \<^verbatim>\<open>vault-secret\<close>.\<close>

definition managed_names :: "k8s_secret list \<Rightarrow> string set" where
  "managed_names objs = Name ` {s \<in> set objs. Annotations s vaultAnnotation \<noteq> None}"

text \<open>The keys of \<^verbatim>\<open>c.Secrets\<close>: the local names that are desired.\<close>

definition desired :: "config \<Rightarrow> string set" where
  "desired c = fst ` set (Secrets c)"

text \<open>A stored secret is obsolete when it carries the annotation and its name is not desired.\<close>

definition obsolete :: "config \<Rightarrow> k8s_secret \<Rightarrow> bool" where
  "obsolete c s \<longleftrightarrow> Annotations s vaultAnnotation \<noteq> None \<and> Name s \<notin> desired c"

text \<open>
  The source logs a line before every call of \<^verbatim>\<open>Create\<close>, \<^verbatim>\<open>Update\<close>, \<^verbatim>\<open>Delete\<close> and of
  Vault's \<^verbatim>\<open>Read\<close>, so the log tells which calls a run has made.
\<close>

fun deletes_of :: "log_entry list \<Rightarrow> string list" where
  "deletes_of [] = []"
| "deletes_of (LogDelete n # es) = n # deletes_of es"
| "deletes_of (e # es) = deletes_of es"

fun is_create :: "log_entry \<Rightarrow> bool" where
  "is_create (LogCreate k v) = True"
| "is_create e = False"

fun is_delete :: "log_entry \<Rightarrow> bool" where
  "is_delete (LogDelete n) = True"
| "is_delete e = False"

fun is_read :: "log_entry \<Rightarrow> bool" where
  "is_read (LogRead v) = True"
| "is_read e = False"

fun is_delete_failed :: "log_entry \<Rightarrow> bool" where
  "is_delete_failed (LogDeleteFailed e) = True"
| "is_delete_failed e = False"

text \<open>A state of the API server in which no coming call fails with a fault.\<close>

definition no_faults :: "world \<Rightarrow> bool" where
  "no_faults w \<longleftrightarrow> (\<forall>f \<in> set (faults w). f = None)"


text \<open>
  The \<open>i\<close>-th existence query of \<^verbatim>\<open>checkSecrets\<close> succeeds: the API server has no fault for
  its \<open>i\<close>-th call (\<open>fs\<close> is the script of faults) and the namespace has a secret with the
  name of the \<open>i\<close>-th entry of the range.
\<close>

definition query_ok ::
  "fault option list \<Rightarrow> k8s_secret list \<Rightarrow> (string \<times> string) list \<Rightarrow> nat \<Rightarrow> bool" where
  "query_ok fs objs kvs i \<longleftrightarrow>
     (i < length fs \<longrightarrow> fs ! i = None) \<and> lookup objs (fst (kvs ! i)) \<noteq> None"

text \<open>
  What the first loop writes for an entry \<open>(k, v)\<close>: the payload is the converted data of the
  secret that Vault returns for \<open>v\<close> (None when the read fails or the conversion panics),
  and \<open>written k data v\<close> is the secret named \<open>k\<close> with that data and the one annotation.
\<close>

definition payload :: "config \<Rightarrow> string \<Rightarrow> string \<Rightarrow> (string \<rightharpoonup> string) option" where
  "payload c token v = (case vaultClient c token v of Inl err \<Rightarrow> None | Inr s \<Rightarrow> convert_data s)"

definition written :: "string \<Rightarrow> (string \<rightharpoonup> string) \<Rightarrow> string \<Rightarrow> k8s_secret" where
  "written k data v = \<lparr>Name = k, Data = data, Annotations = [vaultAnnotation \<mapsto> v]\<rparr>"

text \<open>The list has a secret named \<open>k\<close>, and every secret of that name in it is \<open>obj\<close>.\<close>

definition only_named :: "string \<Rightarrow> k8s_secret \<Rightarrow> k8s_secret list \<Rightarrow> bool" where
  "only_named k obj objs \<longleftrightarrow> lookup objs k \<noteq> None \<and> (\<forall>t \<in> set objs. Name t = k \<longrightarrow> t = obj)"


subsection \<open>A concrete environment, for the examples\<close>

definition ex_payload :: "vault_secret option" where
  "ex_payload = Some \<lparr>VData = [''data'' \<mapsto> FMap [(''user'', DString ''admin'')]]\<rparr>"

definition ex_vault :: "string \<Rightarrow> string \<Rightarrow> error + vault_secret option" where
  "ex_vault token path =
     (if path = ''kv/bad'' then Inl (External ''permission denied'')
      else if path = ''kv/missing'' then Inr None
      else Inr ex_payload)"

definition ex_config :: "(string \<times> string) list \<Rightarrow> config" where
  "ex_config secrets =
     \<lparr>VaultTokenPath = ''/token'', Secrets = secrets, Namespace = ''default'',
      vaultClient = ex_vault\<rparr>"

definition ex_world :: "k8s_secret list \<Rightarrow> fault option list \<Rightarrow> world" where
  "ex_world objs fs =
     \<lparr>store = (\<lambda>ns. if ns = ''default'' then objs else []), faults = fs, logs = [],
      heap = (\<lambda>a. Map.empty), allocated = 0\<rparr>"

definition ex_secret :: "string \<Rightarrow> string option \<Rightarrow> k8s_secret" where
  "ex_secret n src =
     \<lparr>Name = n, Data = Map.empty,
      Annotations = (case src of None \<Rightarrow> Map.empty | Some v \<Rightarrow> [vaultAnnotation \<mapsto> v])\<rparr>"

definition ex_env :: "string \<Rightarrow> string option \<Rightarrow> environment" where
  "ex_env secrets token =
     \<lparr>Getenv = (\<lambda>n. if n = ''VAULT_TOKEN_PATH'' then ''/token''
                    else if n = ''VAULT_SECRETS'' then secrets else []),
      ReadFile = (\<lambda>p. if p = ''/var/run/secrets/kubernetes.io/serviceaccount/namespace''
                      then Inr (''default'' @ [CHR 0x0A])
                      else if p = ''/token''
                      then (case token of None \<Rightarrow> Inl (External ''no such file'') | Some t \<Rightarrow> Inr t)
                      else Inl (External ''no such file'')),
      InClusterConfig = None, NewForConfig = None, ReadEnvironment = None,
      NewClient = Inr ex_vault, TrimSpace = trim_ascii\<rparr>"

definition ex_old :: k8s_secret where
  "ex_old = \<lparr>Name = ''a'', Data = [''stale'' \<mapsto> ''x''], Annotations = [''owner'' \<mapsto> ''me'']\<rparr>"

lemmas ex_defs = ex_payload_def ex_vault_def ex_config_def ex_world_def ex_secret_def ex_env_def

lemmas run_defs = synchronize_def make_map_def sync_entry_def cleanup_def k8s_Get_def
  k8s_Create_def k8s_Update_def k8s_Delete_def k8s_List_def take_fault_def lookup_def
  set_store_def println_def map_assign_def marshal_def convert_data_def vaultAnnotation_def
  Let_def


section \<open>Properties\<close>

subsection \<open>The state and the calls of the API server\<close>

lemma println_simps [simp]:
  "store (println e w) = store w" "faults (println e w) = faults w"
  "logs (println e w) = logs w @ [e]" "heap (println e w) = heap w"
  "allocated (println e w) = allocated w"
  by (simp_all add: println_def)

lemma map_assign_simps [simp]:
  "store (map_assign a k v w) = store w" "faults (map_assign a k v w) = faults w"
  "logs (map_assign a k v w) = logs w"
  "heap (map_assign a k v w) = (heap w)(a := (heap w a)(k \<mapsto> v))"
  "allocated (map_assign a k v w) = allocated w"
  by (simp_all add: map_assign_def)

lemma set_store_simps [simp]:
  "store (set_store ns objs w) = (store w)(ns := objs)" "faults (set_store ns objs w) = faults w"
  "logs (set_store ns objs w) = logs w" "heap (set_store ns objs w) = heap w"
  "allocated (set_store ns objs w) = allocated w"
  by (simp_all add: set_store_def)

lemma take_fault_frame:
  assumes "take_fault w = (f, w')"
  shows "store w' = store w" "logs w' = logs w" "heap w' = heap w" "allocated w' = allocated w"
  using assms by (auto simp: take_fault_def split: list.splits)

lemma k8s_Get_frame:
  assumes "k8s_Get ns n w = (r, w')"
  shows "store w' = store w" "logs w' = logs w" "heap w' = heap w" "allocated w' = allocated w"
  using assms by (auto simp: k8s_Get_def split: prod.splits option.splits dest: take_fault_frame)

lemma k8s_Get_NotFound:
  assumes "k8s_Get ns n w = ((r, err), w')" "IsNotFound err"
  shows "lookup (store w ns) n = None"
  using assms by (auto simp: k8s_Get_def split: prod.splits option.splits dest: take_fault_frame)

lemma k8s_Create_ok:
  assumes "k8s_Create ns s w = (None, w')"
  shows "store w' = (store w)(ns := store w ns @ [s])" "logs w' = logs w" "heap w' = heap w"
    "allocated w' = allocated w"
  using assms by (auto simp: k8s_Create_def split: prod.splits option.splits if_splits dest: take_fault_frame)

lemma k8s_Create_err:
  assumes "k8s_Create ns s w = (Some e, w')"
  shows "store w' = store w" "logs w' = logs w" "heap w' = heap w" "allocated w' = allocated w"
    "\<exists>st. e = Status st"
  using assms by (auto simp: k8s_Create_def split: prod.splits option.splits if_splits dest: take_fault_frame)

lemma k8s_Update_ok:
  assumes "k8s_Update ns s w = (None, w')"
  shows "store w' = (store w)(ns := map (\<lambda>t. if Name t = Name s then s else t) (store w ns))"
    "logs w' = logs w" "heap w' = heap w" "allocated w' = allocated w"
    "lookup (store w ns) (Name s) \<noteq> None"
  using assms by (auto simp: k8s_Update_def split: prod.splits option.splits if_splits dest: take_fault_frame)

lemma k8s_Update_err:
  assumes "k8s_Update ns s w = (Some e, w')"
  shows "store w' = store w" "logs w' = logs w" "heap w' = heap w" "allocated w' = allocated w"
    "\<exists>st. e = Status st"
  using assms by (auto simp: k8s_Update_def split: prod.splits option.splits if_splits dest: take_fault_frame)

lemma k8s_Delete_ok:
  assumes "k8s_Delete ns n w = (None, w')"
  shows "store w' = (store w)(ns := filter (\<lambda>t. Name t \<noteq> n) (store w ns))"
    "logs w' = logs w" "heap w' = heap w" "allocated w' = allocated w"
  using assms by (auto simp: k8s_Delete_def split: prod.splits option.splits if_splits dest: take_fault_frame)

lemma k8s_Delete_err:
  assumes "k8s_Delete ns n w = (Some e, w')"
  shows "store w' = store w" "logs w' = logs w" "heap w' = heap w" "allocated w' = allocated w"
  using assms by (auto simp: k8s_Delete_def split: prod.splits option.splits if_splits dest: take_fault_frame)

lemma k8s_List_ok:
  assumes "k8s_List ns w = (Inr items, w')"
  shows "items = store w ns" "store w' = store w" "logs w' = logs w" "heap w' = heap w"
    "allocated w' = allocated w"
  using assms by (auto simp: k8s_List_def split: prod.splits option.splits if_splits dest: take_fault_frame)

lemma k8s_List_err:
  assumes "k8s_List ns w = (Inl e, w')"
  shows "store w' = store w" "logs w' = logs w" "heap w' = heap w" "allocated w' = allocated w"
   "\<exists>f fs. faults w = Some f # fs \<and> e = Status (Failure f)"
  using assms by (auto simp: k8s_List_def take_fault_def split: prod.splits option.splits if_splits list.splits)


lemma k8s_Get_err_cases:
  assumes "k8s_Get ns n w = ((r, err), w')"
  shows "err = None \<and> lookup (store w ns) n \<noteq> None \<or> err = Some (Status NotFound) \<and> lookup (store w ns) n = None
     \<or> (\<exists>f. err = Some (Status (Failure f)))"
proof (cases "lookup (store w ns) n")
  case None
  then show ?thesis using assms
    by (auto simp: k8s_Get_def take_fault_def split: prod.splits option.splits list.splits)
next
  case (Some s)
  then show ?thesis using assms
    by (auto simp: k8s_Get_def take_fault_def split: prod.splits option.splits list.splits)
qed

lemma lookup_None_iff: "lookup objs n = None \<longleftrightarrow> n \<notin> Name ` set objs"
  by (auto simp: lookup_def find_None_iff)

lemma k8s_Create_absent:
  assumes "k8s_Create ns s w = (None, w')"
  shows "lookup (store w ns) (Name s) = None"
  using assms by (auto simp: k8s_Create_def split: prod.splits option.splits if_splits dest: take_fault_frame)

lemma sync_entry_ok:
  assumes "sync_entry c token a (k, v) w = (None, w')"
  shows "\<exists>s data. vaultClient c token v = Inr s \<and> convert_data s = Some data \<and>
      heap w' = (heap w)(a := (heap w a)(vaultAnnotation \<mapsto> v)) \<and> allocated w' = allocated w \<and>
      ((lookup (store w (Namespace c)) k = None \<and>
        store w' = (store w)(Namespace c := store w (Namespace c) @
           [\<lparr>Name = k, Data = data, Annotations = (heap w a)(vaultAnnotation \<mapsto> v)\<rparr>]) \<and>
        logs w' = logs w @ [LogRead v, LogCreate k v]) \<or>
       (lookup (store w (Namespace c)) k \<noteq> None \<and>
        store w' = (store w)(Namespace c := map (\<lambda>t. if Name t = k then
            \<lparr>Name = k, Data = data, Annotations = (heap w a)(vaultAnnotation \<mapsto> v)\<rparr> else t)
            (store w (Namespace c))) \<and>
        logs w' = logs w @ [LogRead v, LogUpdate k v]))"
proof -
  define ns where "ns = Namespace c"
  define w2 where "w2 = map_assign a vaultAnnotation v (println (LogRead v) w)"
  from assms obtain s data r err w3 where
    rd: "vaultClient c token v = Inr s" and cv: "convert_data s = Some data" and
    g: "k8s_Get ns k w2 = ((r, err), w3)" and
    wr: "if IsNotFound err
         then k8s_Create ns (marshal w3 \<lparr>Name = k, Data = data, Annotations = a\<rparr>)
                (println (LogCreate k v) w3) = (None, w')
         else k8s_Update ns (marshal w3 \<lparr>Name = k, Data = data, Annotations = a\<rparr>)
                (println (LogUpdate k v) w3) = (None, w')"
    unfolding sync_entry_def Let_def ns_def w2_def
    by (auto split: sum.splits option.splits prod.splits if_splits)
  have f3: "store w3 = store w" "logs w3 = logs w @ [LogRead v]"
    "heap w3 = (heap w)(a := (heap w a)(vaultAnnotation \<mapsto> v))" "allocated w3 = allocated w"
    using k8s_Get_frame [OF g] by (simp_all add: w2_def)
  have m: "marshal w3 \<lparr>Name = k, Data = data, Annotations = a\<rparr> =
      \<lparr>Name = k, Data = data, Annotations = (heap w a)(vaultAnnotation \<mapsto> v)\<rparr>"
    by (simp add: marshal_def f3)
  show ?thesis
  proof (cases "IsNotFound err")
    case True
    with wr m have cr: "k8s_Create ns \<lparr>Name = k, Data = data, Annotations = (heap w a)(vaultAnnotation \<mapsto> v)\<rparr>
                (println (LogCreate k v) w3) = (None, w')" by simp
    have "lookup (store w ns) k = None"
      using k8s_Create_absent [OF cr] f3 by simp
    then show ?thesis using k8s_Create_ok [OF cr] f3 rd cv
      by (simp add: ns_def)
  next
    case False
    with wr m have up: "k8s_Update ns \<lparr>Name = k, Data = data, Annotations = (heap w a)(vaultAnnotation \<mapsto> v)\<rparr>
                (println (LogUpdate k v) w3) = (None, w')" by simp
    show ?thesis using k8s_Update_ok [OF up] f3 rd cv
      by (simp add: ns_def)
  qed
qed

lemma sync_entry_abort:
  assumes "sync_entry c token a (k, v) w = (Some out, w')"
  shows "store w' = store w \<and> allocated w' = allocated w \<and>
     (\<exists>evs. logs w' = logs w @ LogRead v # evs \<and> (\<forall>e \<in> set evs. \<not> is_delete e \<and> \<not> is_read e)) \<and>
     (out = Panicked \<or> (\<exists>e. out = Returned (Some e)))"
proof -
  define ns where "ns = Namespace c"
  define w1 where "w1 = println (LogRead v) w"
  define w2 where "w2 = map_assign a vaultAnnotation v w1"
  consider (read) e where "vaultClient c token v = Inl e" "out = Returned (Some e)" "w' = w1"
    | (panic) s where "vaultClient c token v = Inr s" "convert_data s = None" "out = Panicked" "w' = w1"
    | (create) data r err w3 e where "k8s_Get ns k w2 = ((r, err), w3)"
        "k8s_Create ns (marshal w3 \<lparr>Name = k, Data = data, Annotations = a\<rparr>)
                (println (LogCreate k v) w3) = (Some e, w')" "out = Returned (Some e)"
    | (update) data r err w3 e where "k8s_Get ns k w2 = ((r, err), w3)"
        "k8s_Update ns (marshal w3 \<lparr>Name = k, Data = data, Annotations = a\<rparr>)
                (println (LogUpdate k v) w3) = (Some e, w')" "out = Returned (Some e)"
    using assms unfolding sync_entry_def Let_def ns_def w1_def w2_def
    by (auto split: sum.splits option.splits prod.splits if_splits)
  then show ?thesis
  proof cases
    case read
    then show ?thesis by (simp add: w1_def)
  next
    case panic
    then show ?thesis by (simp add: w1_def)
  next
    case create
    show ?thesis using k8s_Get_frame [OF create(1)] k8s_Create_err [OF create(2)] create(3)
      by (simp add: w2_def w1_def)
  next
    case update
    show ?thesis using k8s_Get_frame [OF update(1)] k8s_Update_err [OF update(2)] update(3)
      by (simp add: w2_def w1_def)
  qed
qed


lemma sync_loop_append:
  "sync_loop c token a (xs @ ys) w =
     (case sync_loop c token a xs w of
        (Some out, w') \<Rightarrow> (Some out, w')
      | (None, w') \<Rightarrow> sync_loop c token a ys w')"
  by (induction xs arbitrary: w) (auto split: prod.splits option.splits)

lemma managed_names_Nil [simp]: "managed_names [] = {}"
  by (simp add: managed_names_def)

lemma managed_names_Cons [simp]:
  "managed_names (s # objs) =
     (if Annotations s vaultAnnotation \<noteq> None then insert (Name s) (managed_names objs)
      else managed_names objs)"
  unfolding managed_names_def by (cases "Annotations s vaultAnnotation") auto

lemma managed_names_append:
  "managed_names (xs @ ys) = managed_names xs \<union> managed_names ys"
  by (induction xs) auto

lemma managed_names_replace_absent:
  assumes "Name obj = k" "k \<notin> Name ` set objs"
  shows "managed_names (map (\<lambda>t. if Name t = k then obj else t) objs) = managed_names objs"
  using assms(2) by (induction objs) auto

lemma mem_managed_names:
  "n \<in> managed_names objs \<longleftrightarrow> (\<exists>s \<in> set objs. Name s = n \<and> Annotations s vaultAnnotation \<noteq> None)"
  unfolding managed_names_def by blast

lemma managed_names_replace:
  assumes k: "Name obj = k" and m: "Annotations obj vaultAnnotation \<noteq> None"
    and ex: "k \<in> Name ` set objs"
  shows "managed_names (map (\<lambda>t. if Name t = k then obj else t) objs) = insert k (managed_names objs)"
proof (intro set_eqI iffI)
  fix n
  assume "n \<in> managed_names (map (\<lambda>t. if Name t = k then obj else t) objs)"
  then obtain t where t: "t \<in> set objs"
    "Name (if Name t = k then obj else t) = n"
    "Annotations (if Name t = k then obj else t) vaultAnnotation \<noteq> None"
    unfolding mem_managed_names by (auto simp only: set_map)
  show "n \<in> insert k (managed_names objs)"
  proof (cases "Name t = k")
    case True
    with t(2) k show ?thesis by simp
  next
    case False
    with t have "Name t = n" "Annotations t vaultAnnotation \<noteq> None" by simp_all
    with t(1) have "n \<in> managed_names objs" unfolding mem_managed_names by blast
    then show ?thesis by simp
  qed
next
  fix n
  assume n: "n \<in> insert k (managed_names objs)"
  show "n \<in> managed_names (map (\<lambda>t. if Name t = k then obj else t) objs)"
  proof (cases "n = k")
    case True
    from ex obtain t where t: "t \<in> set objs" "Name t = k" by blast
    then have "obj \<in> set (map (\<lambda>t. if Name t = k then obj else t) objs)"
      by (simp only: set_map) (rule image_eqI [of _ _ t], simp_all)
    with k m True show ?thesis unfolding mem_managed_names by blast
  next
    case False
    with n have "n \<in> managed_names objs" by simp
    then obtain s where s: "s \<in> set objs" "Name s = n" "Annotations s vaultAnnotation \<noteq> None"
      unfolding mem_managed_names by blast
    with False have "s \<in> set (map (\<lambda>t. if Name t = k then obj else t) objs)"
      by (simp only: set_map) (rule image_eqI [of _ _ s], simp_all)
    with s show ?thesis unfolding mem_managed_names by blast
  qed
qed

lemma sync_entry_managed:
  assumes "sync_entry c token a (k, v) w = (None, w')"
  shows "managed_names (store w' (Namespace c)) = insert k (managed_names (store w (Namespace c)))"
proof -
  from sync_entry_ok [OF assms] obtain s data where
    d: "(lookup (store w (Namespace c)) k = None \<and>
        store w' = (store w)(Namespace c := store w (Namespace c) @
           [\<lparr>Name = k, Data = data, Annotations = (heap w a)(vaultAnnotation \<mapsto> v)\<rparr>])) \<or>
       (lookup (store w (Namespace c)) k \<noteq> None \<and>
        store w' = (store w)(Namespace c := map (\<lambda>t. if Name t = k then
            \<lparr>Name = k, Data = data, Annotations = (heap w a)(vaultAnnotation \<mapsto> v)\<rparr> else t)
            (store w (Namespace c))))"
    by blast
  then show ?thesis
  proof
    assume "lookup (store w (Namespace c)) k = None \<and>
        store w' = (store w)(Namespace c := store w (Namespace c) @
           [\<lparr>Name = k, Data = data, Annotations = (heap w a)(vaultAnnotation \<mapsto> v)\<rparr>])"
    then show ?thesis by (simp add: managed_names_append)
  next
    assume u: "lookup (store w (Namespace c)) k \<noteq> None \<and>
        store w' = (store w)(Namespace c := map (\<lambda>t. if Name t = k then
            \<lparr>Name = k, Data = data, Annotations = (heap w a)(vaultAnnotation \<mapsto> v)\<rparr> else t)
            (store w (Namespace c)))"
    then have "k \<in> Name ` set (store w (Namespace c))" by (simp add: lookup_None_iff)
    then show ?thesis using u
      by (simp add: managed_names_replace)
  qed
qed

lemma sync_loop_managed:
  "sync_loop c token a kvs w = (None, w') \<Longrightarrow>
   managed_names (store w' (Namespace c)) = fst ` set kvs \<union> managed_names (store w (Namespace c))"
proof (induction kvs arbitrary: w)
  case Nil
  then show ?case by simp
next
  case (Cons kv kvs)
  obtain k v where kv: "kv = (k, v)" by (cases kv)
  from Cons.prems obtain w1 where
    e: "sync_entry c token a (k, v) w = (None, w1)" and l: "sync_loop c token a kvs w1 = (None, w')"
    by (auto simp: kv split: prod.splits option.splits)
  show ?case using Cons.IH [OF l] sync_entry_managed [OF e] by (auto simp: kv)
qed

subsection \<open>The items of \<^verbatim>\<open>VAULT_SECRETS\<close>\<close>














subsection \<open>The desired mapping\<close>



subsection \<open>A failing read of Vault\<close>

text \<open>
  A read that returns an error. When the entries \<open>pre\<close> have been applied and \<^verbatim>\<open>Read\<close>
  returns an error for the next entry \<open>(k, v)\<close>, \<^verbatim>\<open>synchronize\<close> returns that error at once:
  the final state is the state after \<open>pre\<close> with the one log line of the read added. So
  what \<open>pre\<close> has written stays, nothing is done for the entries \<open>post\<close>, and no call of
  the second phase (\<^verbatim>\<open>List\<close>, \<^verbatim>\<open>Delete\<close>) is made.
\<close>

theorem fetch_failure_aborts:
  assumes "make_map w = (a, w0)"
    and "sync_loop c token a pre w0 = (None, w1)"
    and "vaultClient c token v = Inl err"
  shows "synchronize c (pre @ (k, v) # post) token w = (Returned (Some err), println (LogRead v) w1)
     \<and> store (snd (synchronize c (pre @ (k, v) # post) token w)) = store w1
     \<and> faults (snd (synchronize c (pre @ (k, v) # post) token w)) = faults w1
     \<and> logs (snd (synchronize c (pre @ (k, v) # post) token w)) = logs w1 @ [LogRead v]"
  using assms by (simp add: synchronize_def sync_loop_append sync_entry_def Let_def)

theorem fetch_failure_aborts_witness:
  "make_map (ex_world [] []) = (0, snd (make_map (ex_world [] [])))
   \<and> sync_loop (ex_config []) ''t'' 0 [(''a'', ''kv/a'')] (snd (make_map (ex_world [] []))) =
        (None, snd (sync_loop (ex_config []) ''t'' 0 [(''a'', ''kv/a'')] (snd (make_map (ex_world [] [])))))
   \<and> vaultClient (ex_config []) ''t'' ''kv/bad'' = Inl (External ''permission denied'')
   \<and> fst (synchronize (ex_config []) [(''a'', ''kv/a''), (''b'', ''kv/bad''), (''c'', ''kv/c'')] ''t''
          (ex_world [] [])) = Returned (Some (External ''permission denied''))
   \<and> map Name (store (snd (synchronize (ex_config []) [(''a'', ''kv/a''), (''b'', ''kv/bad''), (''c'', ''kv/c'')] ''t''
          (ex_world [] []))) ''default'') = [''a'']
   \<and> logs (snd (synchronize (ex_config []) [(''a'', ''kv/a''), (''b'', ''kv/bad''), (''c'', ''kv/c'')] ''t''
          (ex_world [] []))) = [LogRead ''kv/a'', LogCreate ''a'' ''kv/a'', LogRead ''kv/bad'']"
proof -
  have h1: "make_map (ex_world [] []) = (0, snd (make_map (ex_world [] [])))"
    by (simp add: make_map_def ex_world_def)
  have "fst (sync_loop (ex_config []) ''t'' 0 [(''a'', ''kv/a'')] (snd (make_map (ex_world [] [])))) = None"
    by (simp add: ex_defs run_defs)
  then have h2: "sync_loop (ex_config []) ''t'' 0 [(''a'', ''kv/a'')] (snd (make_map (ex_world [] []))) =
        (None, snd (sync_loop (ex_config []) ''t'' 0 [(''a'', ''kv/a'')] (snd (make_map (ex_world [] [])))))"
    by (metis prod.collapse)
  have h3: "vaultClient (ex_config []) ''t'' ''kv/bad'' = Inl (External ''permission denied'')"
    by (simp add: ex_defs)
  have e: "map Name (store (snd (sync_loop (ex_config []) ''t'' 0 [(''a'', ''kv/a'')] (snd (make_map (ex_world [] []))))) ''default'') = [''a'']"
    "logs (snd (sync_loop (ex_config []) ''t'' 0 [(''a'', ''kv/a'')] (snd (make_map (ex_world [] []))))) = [LogRead ''kv/a'', LogCreate ''a'' ''kv/a'']"
    by (simp_all add: ex_defs run_defs)
  from fetch_failure_aborts [OF h1 h2 h3, of "''b''" "[(''c'', ''kv/c'')]"] h1 h2 h3 e
  show ?thesis by simp
qed

text \<open>
  A read that returns no error and no usable payload (a nil secret, no map under the key
  \<^verbatim>\<open>data\<close>, or a value that is not a string) is not an error return: the conversion
  panics. The run ends there as well, in the same state.
\<close>

lemma fetch_nil_panics:
  assumes "make_map w = (a, w0)"
    and "sync_loop c token a pre w0 = (None, w1)"
    and "vaultClient c token v = Inr s" and "convert_data s = None"
  shows "synchronize c (pre @ (k, v) # post) token w = (Panicked, println (LogRead v) w1)"
  using assms by (simp add: synchronize_def sync_loop_append sync_entry_def Let_def)

lemma main_synchronize:
  assumes "newFromEnvironment env = Inr c" and "loadToken env c = Inr token"
    and "synchronize c kvs token w = (out, w')"
  shows "main env kvs w =
     (case out of
        Returned (Some err) \<Rightarrow> (1, println (LogFatal (Wrap err ''failed to synchronize secrets'')) w')
      | Returned None \<Rightarrow> (0, println LogSynchronized w')
      | Panicked \<Rightarrow> (2, w')
      | Exited n \<Rightarrow> (n, w'))"
  using assms by (simp add: main_def split: outcome.splits option.splits)

text \<open>
  C2. A fetch that fails with not-found. For a path that does not exist the client of
  Vault returns no secret and no error. \<^verbatim>\<open>synchronize\<close> tests the error only and then reads
  \<^verbatim>\<open>s.Data\<close> of the nil secret: with the entries \<open>a\<close>, \<open>b\<close>, \<open>c\<close>, where the path of \<open>b\<close>
  does not exist, the secret \<open>a\<close> is created, the run panics at \<open>b\<close> and the process
  exits with 2. No error is returned and no fatal line is logged; \<open>c\<close> is not attempted
  and the second phase does not run.
\<close>

theorem fetch_not_found_panics:
  "vaultClient (ex_config [(''a'', ''kv/a''), (''b'', ''kv/missing''), (''c'', ''kv/c'')]) ''t'' ''kv/missing'' = Inr None
   \<and> fst (synchronize (ex_config [(''a'', ''kv/a''), (''b'', ''kv/missing''), (''c'', ''kv/c'')])
        [(''a'', ''kv/a''), (''b'', ''kv/missing''), (''c'', ''kv/c'')] ''t'' (ex_world [] [])) = Panicked
   \<and> map Name (store (snd (synchronize (ex_config [(''a'', ''kv/a''), (''b'', ''kv/missing''), (''c'', ''kv/c'')])
        [(''a'', ''kv/a''), (''b'', ''kv/missing''), (''c'', ''kv/c'')] ''t'' (ex_world [] []))) ''default'') = [''a'']
   \<and> logs (snd (synchronize (ex_config [(''a'', ''kv/a''), (''b'', ''kv/missing''), (''c'', ''kv/c'')])
        [(''a'', ''kv/a''), (''b'', ''kv/missing''), (''c'', ''kv/c'')] ''t'' (ex_world [] []))) =
       [LogRead ''kv/a'', LogCreate ''a'' ''kv/a'', LogRead ''kv/missing'']
   \<and> newFromEnvironment (ex_env ''kv/a:a,kv/missing:b,kv/c:c'' (Some ''t'')) =
       Inr (ex_config [(''a'', ''kv/a''), (''b'', ''kv/missing''), (''c'', ''kv/c'')])
   \<and> fst (main (ex_env ''kv/a:a,kv/missing:b,kv/c:c'' (Some ''t''))
        [(''a'', ''kv/a''), (''b'', ''kv/missing''), (''c'', ''kv/c'')] (ex_world [] [])) = 2
   \<and> logs (snd (main (ex_env ''kv/a:a,kv/missing:b,kv/c:c'' (Some ''t''))
        [(''a'', ''kv/a''), (''b'', ''kv/missing''), (''c'', ''kv/c'')] (ex_world [] []))) =
       [LogRead ''kv/a'', LogCreate ''a'' ''kv/a'', LogRead ''kv/missing'']"
proof -
  let ?c = "ex_config [(''a'', ''kv/a''), (''b'', ''kv/missing''), (''c'', ''kv/c'')]"
  let ?kvs = "[(''a'', ''kv/a''), (''b'', ''kv/missing''), (''c'', ''kv/c'')]"
  let ?env = "ex_env ''kv/a:a,kv/missing:b,kv/c:c'' (Some ''t'')"
  let ?w = "ex_world [] []"
  have v: "vaultClient ?c ''t'' ''kv/missing'' = Inr None" by (simp add: ex_defs)
  have s: "fst (synchronize ?c ?kvs ''t'' ?w) = Panicked"
    "map Name (store (snd (synchronize ?c ?kvs ''t'' ?w)) ''default'') = [''a'']"
    "logs (snd (synchronize ?c ?kvs ''t'' ?w)) = [LogRead ''kv/a'', LogCreate ''a'' ''kv/a'', LogRead ''kv/missing'']"
    by (simp_all add: ex_defs run_defs)
  have h1: "newFromEnvironment ?env = Inr ?c"
    by (simp add: newFromEnvironment_def ex_env_def ex_config_def Let_def trim_ascii_def is_space_def)
  have h2: "loadToken ?env ?c = Inr ''t''" by (simp add: loadToken_def ex_env_def ex_config_def)
  from s(1) have sp: "synchronize ?c ?kvs ''t'' ?w = (Panicked, snd (synchronize ?c ?kvs ''t'' ?w))"
    by (metis prod.collapse)
  have m: "main ?env ?kvs ?w = (2, snd (synchronize ?c ?kvs ''t'' ?w))"
    using main_synchronize [OF h1 h2 sp] by simp
  from v s h1 m show ?thesis by simp
qed

subsection \<open>The degraded mode\<close>

lemma range_of_set: "range_of m kvs \<Longrightarrow> set kvs = set m"
  unfolding range_of_def by (metis set_mset_mset)

lemma range_of_keys: "range_of (Secrets c) kvs \<Longrightarrow> fst ` set kvs = desired c"
  by (simp add: range_of_set desired_def)

lemma range_of_distinct: "range_of m kvs \<Longrightarrow> distinct (map fst kvs)"
proof -
  assume r: "range_of m kvs"
  then have "mset (map fst kvs) = mset (map fst m)" by (simp add: range_of_def)
  from mset_eq_imp_distinct_iff [OF this] r show ?thesis by (simp add: range_of_def)
qed

lemma no_faults_take:
  assumes "no_faults w"
  shows "take_fault w = (None, snd (take_fault w))" "no_faults (snd (take_fault w))"
    "store (snd (take_fault w)) = store w" "logs (snd (take_fault w)) = logs w"
    "heap (snd (take_fault w)) = heap w" "allocated (snd (take_fault w)) = allocated w"
  using assms by (cases "faults w"; simp add: no_faults_def take_fault_def)+

lemma no_faults_println [simp]: "no_faults (println e w) = no_faults w"
  by (simp add: no_faults_def)

lemma no_faults_map_assign [simp]: "no_faults (map_assign a k v w) = no_faults w"
  by (simp add: no_faults_def)

lemma no_faults_set_store [simp]: "no_faults (set_store ns objs w) = no_faults w"
  by (simp add: no_faults_def)

lemma k8s_Get_no_faults:
  assumes "no_faults w" "k8s_Get ns n w = ((r, err), w')"
  shows "no_faults w'" "r = lookup (store w ns) n"
    "err = (if lookup (store w ns) n = None then Some (Status NotFound) else None)"
  using assms no_faults_take [OF assms(1)]
  by (cases "lookup (store w ns) n"; auto simp: k8s_Get_def split: prod.splits option.splits)+

lemma checkSecrets_append:
  "checkSecrets c (xs @ ys) w =
     (case checkSecrets c xs w of
        (Some e, w') \<Rightarrow> (Some e, w')
      | (None, w') \<Rightarrow> checkSecrets c ys w')"
  by (induction xs arbitrary: w) (auto split: prod.splits option.splits)

lemma checkSecrets_frame:
  "checkSecrets c kvs w = (r, w') \<Longrightarrow>
     store w' = store w \<and> heap w' = heap w \<and> allocated w' = allocated w \<and>
     (\<exists>evs. logs w' = logs w @ evs \<and> (\<forall>e \<in> set evs. \<not> is_read e))"
proof (induction kvs arbitrary: w)
  case Nil
  then show ?case by simp
next
  case (Cons kv kvs)
  obtain k v where kv: "kv = (k, v)" by (cases kv)
  obtain r1 err w1 where g: "k8s_Get (Namespace c) k (println (LogCheck k v) w) = ((r1, err), w1)"
    by (metis prod.collapse)
  have f: "store w1 = store w" "heap w1 = heap w" "allocated w1 = allocated w"
    "logs w1 = logs w @ [LogCheck k v]"
    using k8s_Get_frame [OF g] by simp_all
  show ?case
  proof (cases err)
    case None
    with Cons.prems g have "checkSecrets c kvs w1 = (r, w')" by (simp add: kv)
    from Cons.IH [OF this] f show ?thesis by auto
  next
    case (Some e)
    with Cons.prems g have "w' = w1" by (simp add: kv)
    with f show ?thesis by simp
  qed
qed

lemma checkSecrets_no_faults:
  "no_faults w \<Longrightarrow> checkSecrets c kvs w = (r, w') \<Longrightarrow>
     (r = None \<longleftrightarrow> (\<forall>k \<in> fst ` set kvs. lookup (store w (Namespace c)) k \<noteq> None)) \<and>
     (\<forall>e. r = Some e \<longrightarrow> (\<exists>k \<in> fst ` set kvs. lookup (store w (Namespace c)) k = None \<and>
         e = Errorf (''secret '' @ k @ '' does not exist'')))"
proof (induction kvs arbitrary: w)
  case Nil
  then show ?case by simp
next
  case (Cons kv kvs)
  obtain k v where kv: "kv = (k, v)" by (cases kv)
  obtain r1 err w1 where g: "k8s_Get (Namespace c) k (println (LogCheck k v) w) = ((r1, err), w1)"
    by (metis prod.collapse)
  have nf: "no_faults (println (LogCheck k v) w)" using Cons.prems(1) by simp
  have f: "store w1 = store w" using k8s_Get_frame [OF g] by simp
  note n = k8s_Get_no_faults [OF nf g]
  show ?case
  proof (cases "lookup (store w (Namespace c)) k")
    case None
    with n(3) have "err = Some (Status NotFound)" by simp
    with Cons.prems(2) g have "r = Some (Errorf (''secret '' @ k @ '' does not exist''))"
      by (auto simp: kv)
    with None show ?thesis by (auto simp: kv)
  next
    case (Some s)
    with n(3) have "err = None" by simp
    with Cons.prems(2) g have "checkSecrets c kvs w1 = (r, w')" by (simp add: kv)
    from Cons.IH [OF n(1) this] Some f show ?thesis by (auto simp: kv)
  qed
qed

lemma take_fault_faults:
  assumes "take_fault w = (f, w0)"
  shows "faults w0 = tl (faults w)"
    and "f = None \<longleftrightarrow> (0 < length (faults w) \<longrightarrow> faults w ! 0 = None)"
  using assms by (cases "faults w"; auto simp: take_fault_def)+

lemma k8s_Get_faults:
  assumes "k8s_Get ns n w = ((r, err), w')"
  shows "faults w' = tl (faults w)"
    and "err = None \<longleftrightarrow> (0 < length (faults w) \<longrightarrow> faults w ! 0 = None) \<and> lookup (store w ns) n \<noteq> None"
proof -
  obtain f w0 where t: "take_fault w = (f, w0)" by (cases "take_fault w")
  note tf = take_fault_faults [OF t] and fr = take_fault_frame [OF t]
  have both: "faults w' = tl (faults w) \<and>
     (err = None \<longleftrightarrow> f = None \<and> lookup (store w ns) n \<noteq> None)"
  proof (cases f)
    case (Some f')
    have "k8s_Get ns n w = ((None, Some (Status (Failure f'))), w0)"
      using t Some by (simp add: k8s_Get_def)
    with assms have "err = Some (Status (Failure f'))" "w' = w0" by simp_all
    with tf(1) Some show ?thesis by simp
  next
    case None
    show ?thesis
    proof (cases "lookup (store w ns) n")
      case N: None
      have "k8s_Get ns n w = ((None, Some (Status NotFound)), w0)"
        using t None N fr(1) by (simp add: k8s_Get_def)
      with assms have "err = Some (Status NotFound)" "w' = w0" by simp_all
      with tf(1) N show ?thesis by simp
    next
      case S: (Some s)
      have "k8s_Get ns n w = ((Some s, None), w0)"
        using t None S fr(1) by (simp add: k8s_Get_def)
      with assms have "err = None" "w' = w0" by simp_all
      with tf(1) S None show ?thesis by simp
    qed
  qed
  then show "faults w' = tl (faults w)" by simp
  from both tf(2)
  show "err = None \<longleftrightarrow> (0 < length (faults w) \<longrightarrow> faults w ! 0 = None) \<and> lookup (store w ns) n \<noteq> None"
    by simp
qed

lemma query_ok_Suc:
  "query_ok fs objs (kv # kvs) (Suc i) \<longleftrightarrow> query_ok (tl fs) objs kvs i"
  by (cases fs) (simp_all add: query_ok_def)

lemma checkSecrets_queries:
  "checkSecrets c kvs w = (r, w') \<Longrightarrow>
     (r = None \<longleftrightarrow> (\<forall>i < length kvs. query_ok (faults w) (store w (Namespace c)) kvs i)) \<and>
     (\<forall>e. r = Some e \<longrightarrow> (\<exists>i < length kvs. \<not> query_ok (faults w) (store w (Namespace c)) kvs i \<and>
         (\<forall>j < i. query_ok (faults w) (store w (Namespace c)) kvs j) \<and>
         e = Errorf (''secret '' @ fst (kvs ! i) @ '' does not exist'')))"
proof (induction kvs arbitrary: w)
  case Nil
  then show ?case by simp
next
  case (Cons kv kvs)
  let ?fs = "faults w" and ?objs = "store w (Namespace c)"
  obtain k v where kv: "kv = (k, v)" by (cases kv)
  obtain r1 err w1 where g: "k8s_Get (Namespace c) k (println (LogCheck k v) w) = ((r1, err), w1)"
    by (metis prod.collapse)
  have st: "store w1 = store w" using k8s_Get_frame [OF g] by simp
  have fl: "faults w1 = tl ?fs" using k8s_Get_faults(1) [OF g] by simp
  have q0: "err = None \<longleftrightarrow> query_ok ?fs ?objs (kv # kvs) 0"
    using k8s_Get_faults(2) [OF g] by (simp add: query_ok_def kv)
  show ?case
  proof (cases err)
    case (Some e')
    with Cons.prems g have r: "r = Some (Errorf (''secret '' @ k @ '' does not exist''))"
      by (auto simp: kv)
    from Some q0 have n0: "\<not> query_ok ?fs ?objs (kv # kvs) 0" by simp
    then have "\<not> (\<forall>i < length (kv # kvs). query_ok ?fs ?objs (kv # kvs) i)" by auto
    moreover have "\<exists>i < length (kv # kvs). \<not> query_ok ?fs ?objs (kv # kvs) i \<and>
         (\<forall>j < i. query_ok ?fs ?objs (kv # kvs) j) \<and>
         Errorf (''secret '' @ k @ '' does not exist'') =
           Errorf (''secret '' @ fst ((kv # kvs) ! i) @ '' does not exist'')"
      using n0 by (intro exI [of _ 0]) (simp add: kv)
    ultimately show ?thesis using r by simp
  next
    case None
    with Cons.prems g have cs: "checkSecrets c kvs w1 = (r, w')" by (simp add: kv)
    note ih = Cons.IH [OF cs, unfolded st fl]
    from None q0 have y0: "query_ok ?fs ?objs (kv # kvs) 0" by simp
    have a: "r = None \<longleftrightarrow> (\<forall>i < length (kv # kvs). query_ok ?fs ?objs (kv # kvs) i)"
      using ih y0 by (simp add: All_less_Suc2 query_ok_Suc)
    have b: "\<forall>e. r = Some e \<longrightarrow> (\<exists>i < length (kv # kvs). \<not> query_ok ?fs ?objs (kv # kvs) i \<and>
         (\<forall>j < i. query_ok ?fs ?objs (kv # kvs) j) \<and>
         e = Errorf (''secret '' @ fst ((kv # kvs) ! i) @ '' does not exist''))"
    proof (intro allI impI)
      fix e assume "r = Some e"
      with ih obtain i where i: "i < length kvs" "\<not> query_ok (tl ?fs) ?objs kvs i"
        "\<forall>j < i. query_ok (tl ?fs) ?objs kvs j"
        "e = Errorf (''secret '' @ fst (kvs ! i) @ '' does not exist'')" by blast
      have "\<forall>j < Suc i. query_ok ?fs ?objs (kv # kvs) j"
        using i(3) y0 by (simp add: All_less_Suc2 query_ok_Suc)
      with i(1,2,4) show "\<exists>i < length (kv # kvs). \<not> query_ok ?fs ?objs (kv # kvs) i \<and>
         (\<forall>j < i. query_ok ?fs ?objs (kv # kvs) j) \<and>
         e = Errorf (''secret '' @ fst ((kv # kvs) ! i) @ '' does not exist'')"
        by (intro exI [of _ "Suc i"]) (simp add: query_ok_Suc)
    qed
    from a b show ?thesis by blast
  qed
qed

lemma ex_env_config:
  "newFromEnvironment (ex_env ''kv/a:a,kv/b:b'' t) = Inr (ex_config [(''a'', ''kv/a''), (''b'', ''kv/b'')])"
  by (simp add: newFromEnvironment_def ex_env_def ex_config_def Let_def trim_ascii_def is_space_def)

text \<open>
  C5, as the code has it. When the token cannot be read, \<^verbatim>\<open>main\<close> only checks the local
  secrets, with one existence query for each desired name, in the order of the range. The
  process exits with 0 exactly when every query succeeds: the name has a secret in the
  namespace (its presence is all that is looked at) and the API server answers. Otherwise
  it exits with 1 at the first query that fails, because the name is missing or because
  the API server fails, and the fatal message says that the secret of that entry does not
  exist. The store is left as it was and no line of a read of Vault is logged: Vault is
  not contacted. With an API server that answers every query the process exits with 0
  exactly when every desired name has a secret, and otherwise names one that is missing.
\<close>

theorem degraded_mode:
  assumes cfg: "newFromEnvironment env = Inr c" and tok: "loadToken env c = Inl err"
    and rng: "range_of (Secrets c) kvs"
  shows "(fst (main env kvs w) = 0 \<longleftrightarrow>
            (\<forall>i < length kvs. query_ok (faults w) (store w (Namespace c)) kvs i))
    \<and> (fst (main env kvs w) \<noteq> 0 \<longrightarrow> fst (main env kvs w) = 1 \<and>
         (\<exists>i < length kvs. \<not> query_ok (faults w) (store w (Namespace c)) kvs i \<and>
            (\<forall>j < i. query_ok (faults w) (store w (Namespace c)) kvs j) \<and>
            fst (kvs ! i) \<in> desired c \<and>
            last (logs (snd (main env kvs w))) =
              LogFatal (Errorf (''secret '' @ fst (kvs ! i) @ '' does not exist''))))
    \<and> store (snd (main env kvs w)) = store w
    \<and> (\<exists>evs. logs (snd (main env kvs w)) = logs w @ evs \<and> (\<forall>e \<in> set evs. \<not> is_read e))
    \<and> (no_faults w \<longrightarrow>
         (fst (main env kvs w) = 0 \<longleftrightarrow> (\<forall>k \<in> desired c. lookup (store w (Namespace c)) k \<noteq> None))
         \<and> (fst (main env kvs w) \<noteq> 0 \<longrightarrow>
              (\<exists>k \<in> desired c. lookup (store w (Namespace c)) k = None \<and>
                 last (logs (snd (main env kvs w))) =
                   LogFatal (Errorf (''secret '' @ k @ '' does not exist'')))))"
proof -
  let ?Q = "query_ok (faults w) (store w (Namespace c)) kvs"
  obtain r w1 where cs: "checkSecrets c kvs w = (r, w1)" by (cases "checkSecrets c kvs w")
  note fr = checkSecrets_frame [OF cs]
  note qs = checkSecrets_queries [OF cs]
  have keys: "fst ` set kvs = desired c" using rng by (rule range_of_keys)
  from fr obtain evs where evs: "logs w1 = logs w @ evs" "\<forall>e \<in> set evs. \<not> is_read e" by blast
  have m: "main env kvs w = (case r of
       Some err' \<Rightarrow> (1, println (LogFatal err') w1)
     | None \<Rightarrow> (0, println (LogDegraded (Wrap err (''cannot synchronize secrets - all secrets seems '' @
                        ''to be available therefore pod creation will continue''))) w1))"
    using cfg tok cs by (simp add: main_def)
  have p1: "fst (main env kvs w) = 0 \<longleftrightarrow> (\<forall>i < length kvs. ?Q i)"
    using m qs by (cases r) simp_all
  have p2: "fst (main env kvs w) \<noteq> 0 \<longrightarrow> fst (main env kvs w) = 1 \<and>
         (\<exists>i < length kvs. \<not> ?Q i \<and> (\<forall>j < i. ?Q j) \<and> fst (kvs ! i) \<in> desired c \<and>
            last (logs (snd (main env kvs w))) =
              LogFatal (Errorf (''secret '' @ fst (kvs ! i) @ '' does not exist'')))"
  proof (cases r)
    case None
    with m show ?thesis by simp
  next
    case (Some e)
    with qs obtain i where i: "i < length kvs" "\<not> ?Q i" "\<forall>j < i. ?Q j"
      "e = Errorf (''secret '' @ fst (kvs ! i) @ '' does not exist'')" by blast
    from i(1) have "fst (kvs ! i) \<in> fst ` set kvs" by simp
    with keys have "fst (kvs ! i) \<in> desired c" by simp
    with i Some m show ?thesis by auto
  qed
  have p3: "store (snd (main env kvs w)) = store w" using m fr by (cases r) simp_all
  have p4: "\<exists>evs. logs (snd (main env kvs w)) = logs w @ evs \<and> (\<forall>e \<in> set evs. \<not> is_read e)"
  proof (cases r)
    case None
    have "\<forall>e \<in> set (evs @ [LogDegraded (Wrap err (''cannot synchronize secrets - all secrets seems '' @
                        ''to be available therefore pod creation will continue''))]). \<not> is_read e"
      using evs(2) by simp
    with None m evs(1) show ?thesis by auto
  next
    case (Some e)
    have "\<forall>e' \<in> set (evs @ [LogFatal e]). \<not> is_read e'" using evs(2) by simp
    with Some m evs(1) show ?thesis by auto
  qed
  have p5: "no_faults w \<longrightarrow>
         (fst (main env kvs w) = 0 \<longleftrightarrow> (\<forall>k \<in> desired c. lookup (store w (Namespace c)) k \<noteq> None))
         \<and> (fst (main env kvs w) \<noteq> 0 \<longrightarrow>
              (\<exists>k \<in> desired c. lookup (store w (Namespace c)) k = None \<and>
                 last (logs (snd (main env kvs w))) =
                   LogFatal (Errorf (''secret '' @ k @ '' does not exist''))))"
  proof
    assume nf: "no_faults w"
    note ch = checkSecrets_no_faults [OF nf cs]
    show "(fst (main env kvs w) = 0 \<longleftrightarrow> (\<forall>k \<in> desired c. lookup (store w (Namespace c)) k \<noteq> None))
         \<and> (fst (main env kvs w) \<noteq> 0 \<longrightarrow>
              (\<exists>k \<in> desired c. lookup (store w (Namespace c)) k = None \<and>
                 last (logs (snd (main env kvs w))) =
                   LogFatal (Errorf (''secret '' @ k @ '' does not exist''))))"
    proof (cases r)
      case None
      with ch keys m show ?thesis by simp
    next
      case (Some e)
      with ch keys obtain k where k: "k \<in> desired c" "lookup (store w (Namespace c)) k = None"
        "e = Errorf (''secret '' @ k @ '' does not exist'')" by auto
      with Some m show ?thesis by auto
    qed
  qed
  from p1 p2 p3 p4 p5 show ?thesis by blast
qed

theorem degraded_mode_witness:
  "newFromEnvironment (ex_env ''kv/a:a,kv/b:b'' None) = Inr (ex_config [(''a'', ''kv/a''), (''b'', ''kv/b'')])
   \<and> loadToken (ex_env ''kv/a:a,kv/b:b'' None) (ex_config [(''a'', ''kv/a''), (''b'', ''kv/b'')]) =
        Inl (Wrap (External ''no such file'') ''could not get vault token'')
   \<and> range_of (Secrets (ex_config [(''a'', ''kv/a''), (''b'', ''kv/b'')])) [(''b'', ''kv/b''), (''a'', ''kv/a'')]
   \<and> no_faults (ex_world [ex_secret ''a'' None, ex_secret ''b'' (Some ''kv/old'')] [])
   \<and> fst (main (ex_env ''kv/a:a,kv/b:b'' None) [(''b'', ''kv/b''), (''a'', ''kv/a'')]
          (ex_world [ex_secret ''a'' None, ex_secret ''b'' (Some ''kv/old'')] [])) = 0
   \<and> no_faults (ex_world [ex_secret ''a'' None] [])
   \<and> fst (main (ex_env ''kv/a:a,kv/b:b'' None) [(''b'', ''kv/b''), (''a'', ''kv/a'')]
          (ex_world [ex_secret ''a'' None] [])) = 1
   \<and> last (logs (snd (main (ex_env ''kv/a:a,kv/b:b'' None) [(''b'', ''kv/b''), (''a'', ''kv/a'')]
          (ex_world [ex_secret ''a'' None] [])))) = LogFatal (Errorf ''secret b does not exist'')
   \<and> \<not> query_ok (faults (ex_world [ex_secret ''a'' None, ex_secret ''b'' None] [None, Some Forbidden]))
          (store (ex_world [ex_secret ''a'' None, ex_secret ''b'' None] [None, Some Forbidden]) ''default'')
          [(''b'', ''kv/b''), (''a'', ''kv/a'')] 1
   \<and> fst (main (ex_env ''kv/a:a,kv/b:b'' None) [(''b'', ''kv/b''), (''a'', ''kv/a'')]
          (ex_world [ex_secret ''a'' None, ex_secret ''b'' None] [None, Some Forbidden])) = 1"
proof -
  let ?env = "ex_env ''kv/a:a,kv/b:b'' None"
  let ?c = "ex_config [(''a'', ''kv/a''), (''b'', ''kv/b'')]"
  let ?kvs = "[(''b'', ''kv/b''), (''a'', ''kv/a'')]"
  let ?w1 = "ex_world [ex_secret ''a'' None, ex_secret ''b'' (Some ''kv/old'')] []"
  let ?w2 = "ex_world [ex_secret ''a'' None] []"
  let ?w3 = "ex_world [ex_secret ''a'' None, ex_secret ''b'' None] [None, Some Forbidden]"
  have h1: "newFromEnvironment ?env = Inr ?c" by (rule ex_env_config)
  have h2: "loadToken ?env ?c = Inl (Wrap (External ''no such file'') ''could not get vault token'')"
    by (simp add: loadToken_def ex_env_def ex_config_def)
  have h3: "range_of (Secrets ?c) ?kvs" by (simp add: range_of_def ex_config_def)
  have h4: "no_faults ?w1" "no_faults ?w2"
    by (simp_all add: no_faults_def ex_world_def)
  have d: "desired ?c = {''a'', ''b''}" by (auto simp: desired_def ex_config_def)
  have n: "Namespace ?c = ''default''" by (simp add: ex_config_def)
  have l: "lookup (store ?w1 ''default'') ''a'' \<noteq> None" "lookup (store ?w1 ''default'') ''b'' \<noteq> None"
    "lookup (store ?w2 ''default'') ''a'' \<noteq> None" "lookup (store ?w2 ''default'') ''b'' = None"
    by (simp_all add: lookup_def ex_defs)
  from degraded_mode [OF h1 h2 h3, of ?w1] h4(1)
  have "fst (main ?env ?kvs ?w1) = 0 \<longleftrightarrow> (\<forall>k \<in> desired ?c. lookup (store ?w1 (Namespace ?c)) k \<noteq> None)"
    by blast
  with d n l have r1: "fst (main ?env ?kvs ?w1) = 0" by simp
  from degraded_mode [OF h1 h2 h3, of ?w2] h4(2)
  have a: "fst (main ?env ?kvs ?w2) = 0 \<longleftrightarrow> (\<forall>k \<in> desired ?c. lookup (store ?w2 (Namespace ?c)) k \<noteq> None)"
    and b: "fst (main ?env ?kvs ?w2) \<noteq> 0 \<longrightarrow> fst (main ?env ?kvs ?w2) = 1"
    and c: "fst (main ?env ?kvs ?w2) \<noteq> 0 \<longrightarrow>
              (\<exists>k \<in> desired ?c. lookup (store ?w2 (Namespace ?c)) k = None \<and>
                 last (logs (snd (main ?env ?kvs ?w2))) =
                   LogFatal (Errorf (''secret '' @ k @ '' does not exist'')))"
    by blast+
  from a d n l have nz: "fst (main ?env ?kvs ?w2) \<noteq> 0" by simp
  with b have r2: "fst (main ?env ?kvs ?w2) = 1" by blast
  from c nz d n l have r3: "last (logs (snd (main ?env ?kvs ?w2))) = LogFatal (Errorf ''secret b does not exist'')"
    by auto
  have q: "\<not> query_ok (faults ?w3) (store ?w3 ''default'') ?kvs 1"
    by (simp add: query_ok_def ex_world_def)
  from degraded_mode [OF h1 h2 h3, of ?w3]
  have e: "fst (main ?env ?kvs ?w3) = 0 \<longleftrightarrow>
      (\<forall>i < length ?kvs. query_ok (faults ?w3) (store ?w3 (Namespace ?c)) ?kvs i)"
    and f: "fst (main ?env ?kvs ?w3) \<noteq> 0 \<longrightarrow> fst (main ?env ?kvs ?w3) = 1"
    by blast+
  have "\<not> (\<forall>i < length ?kvs. query_ok (faults ?w3) (store ?w3 (Namespace ?c)) ?kvs i)"
  proof
    assume "\<forall>i < length ?kvs. query_ok (faults ?w3) (store ?w3 (Namespace ?c)) ?kvs i"
    then have "query_ok (faults ?w3) (store ?w3 (Namespace ?c)) ?kvs 1" by simp
    with q n show False by simp
  qed
  with e f have r4: "fst (main ?env ?kvs ?w3) = 1" by blast
  from h1 h2 h3 h4 r1 r2 r3 q r4 show ?thesis by blast
qed

text \<open>
  C5, as the specification words it (exit 0 whenever every desired name exists), does not
  hold: with the secrets \<open>a\<close> and \<open>b\<close> both in the namespace and the first query refused
  by the API server, the process exits with 1 and reports that \<open>a\<close> does not exist.
\<close>

theorem degraded_mode_counterexample:
  "newFromEnvironment (ex_env ''kv/a:a,kv/b:b'' None) = Inr (ex_config [(''a'', ''kv/a''), (''b'', ''kv/b'')])
   \<and> loadToken (ex_env ''kv/a:a,kv/b:b'' None) (ex_config [(''a'', ''kv/a''), (''b'', ''kv/b'')]) =
        Inl (Wrap (External ''no such file'') ''could not get vault token'')
   \<and> lookup (store (ex_world [ex_secret ''a'' None, ex_secret ''b'' None] [Some Forbidden]) ''default'') ''a'' \<noteq> None
   \<and> lookup (store (ex_world [ex_secret ''a'' None, ex_secret ''b'' None] [Some Forbidden]) ''default'') ''b'' \<noteq> None
   \<and> fst (main (ex_env ''kv/a:a,kv/b:b'' None) [(''a'', ''kv/a''), (''b'', ''kv/b'')]
          (ex_world [ex_secret ''a'' None, ex_secret ''b'' None] [Some Forbidden])) = 1
   \<and> last (logs (snd (main (ex_env ''kv/a:a,kv/b:b'' None) [(''a'', ''kv/a''), (''b'', ''kv/b'')]
          (ex_world [ex_secret ''a'' None, ex_secret ''b'' None] [Some Forbidden])))) =
        LogFatal (Errorf ''secret a does not exist'')"
proof -
  let ?env = "ex_env ''kv/a:a,kv/b:b'' None"
  let ?c = "ex_config [(''a'', ''kv/a''), (''b'', ''kv/b'')]"
  let ?w = "ex_world [ex_secret ''a'' None, ex_secret ''b'' None] [Some Forbidden]"
  have h1: "newFromEnvironment ?env = Inr ?c" by (rule ex_env_config)
  have h2: "loadToken ?env ?c = Inl (Wrap (External ''no such file'') ''could not get vault token'')"
    by (simp add: loadToken_def ex_env_def ex_config_def)
  have l: "lookup (store ?w ''default'') ''a'' \<noteq> None" "lookup (store ?w ''default'') ''b'' \<noteq> None"
    by (simp_all add: lookup_def ex_defs)
  have m: "main ?env [(''a'', ''kv/a''), (''b'', ''kv/b'')] ?w =
     (case checkSecrets ?c [(''a'', ''kv/a''), (''b'', ''kv/b'')] ?w of
        (Some err', w') \<Rightarrow> (1, println (LogFatal err') w')
      | (None, w') \<Rightarrow> (0, println (LogDegraded (Wrap (Wrap (External ''no such file'') ''could not get vault token'')
           (''cannot synchronize secrets - all secrets seems '' @
            ''to be available therefore pod creation will continue''))) w'))"
    by (simp add: main_def h1 h2)
  have r: "fst (main ?env [(''a'', ''kv/a''), (''b'', ''kv/b'')] ?w) = 1"
    "last (logs (snd (main ?env [(''a'', ''kv/a''), (''b'', ''kv/b'')] ?w))) =
        LogFatal (Errorf ''secret a does not exist'')"
    unfolding m by (simp_all add: ex_defs run_defs)
  from h1 h2 l r show ?thesis by blast
qed

text \<open>
  C10. In the check of the degraded mode every error of \<^verbatim>\<open>Get\<close> gives the same message:
  when the query for \<open>k\<close> fails with a fault of the API server (forbidden or unavailable),
  \<^verbatim>\<open>checkSecrets\<close> returns \<open>secret k does not exist\<close> and \<^verbatim>\<open>main\<close> exits with 1, whatever
  the namespace holds, also when every desired secret is there.
\<close>

theorem degraded_check_any_error:
  assumes pre: "checkSecrets c pre w = (None, w1)" and flt: "faults w1 = Some f # fs"
  shows "checkSecrets c (pre @ (k, v) # post) w =
           (Some (Errorf (''secret '' @ k @ '' does not exist'')), (println (LogCheck k v) w1)\<lparr>faults := fs\<rparr>)
     \<and> (newFromEnvironment env = Inr c \<and> loadToken env c = Inl err \<longrightarrow>
          main env (pre @ (k, v) # post) w =
            (1, println (LogFatal (Errorf (''secret '' @ k @ '' does not exist'')))
                  ((println (LogCheck k v) w1)\<lparr>faults := fs\<rparr>)))"
proof -
  have g: "k8s_Get (Namespace c) k (println (LogCheck k v) w1) =
      ((None, Some (Status (Failure f))), (println (LogCheck k v) w1)\<lparr>faults := fs\<rparr>)"
    using flt by (simp add: k8s_Get_def take_fault_def println_def)
  have cs: "checkSecrets c (pre @ (k, v) # post) w =
      (Some (Errorf (''secret '' @ k @ '' does not exist'')), (println (LogCheck k v) w1)\<lparr>faults := fs\<rparr>)"
    using pre g by (simp add: checkSecrets_append)
  then show ?thesis by (simp add: main_def)
qed

theorem degraded_check_any_error_witness:
  "checkSecrets (ex_config [(''a'', ''kv/a''), (''b'', ''kv/b'')]) [(''a'', ''kv/a'')]
      (ex_world [ex_secret ''a'' None, ex_secret ''b'' None] [None, Some Unavailable]) =
     (None, snd (checkSecrets (ex_config [(''a'', ''kv/a''), (''b'', ''kv/b'')]) [(''a'', ''kv/a'')]
      (ex_world [ex_secret ''a'' None, ex_secret ''b'' None] [None, Some Unavailable])))
   \<and> faults (snd (checkSecrets (ex_config [(''a'', ''kv/a''), (''b'', ''kv/b'')]) [(''a'', ''kv/a'')]
      (ex_world [ex_secret ''a'' None, ex_secret ''b'' None] [None, Some Unavailable]))) = [Some Unavailable]
   \<and> lookup (store (ex_world [ex_secret ''a'' None, ex_secret ''b'' None] [None, Some Unavailable]) ''default'') ''a'' \<noteq> None
   \<and> lookup (store (ex_world [ex_secret ''a'' None, ex_secret ''b'' None] [None, Some Unavailable]) ''default'') ''b'' \<noteq> None
   \<and> fst (checkSecrets (ex_config [(''a'', ''kv/a''), (''b'', ''kv/b'')]) [(''a'', ''kv/a''), (''b'', ''kv/b'')]
      (ex_world [ex_secret ''a'' None, ex_secret ''b'' None] [None, Some Unavailable])) =
       Some (Errorf ''secret b does not exist'')
   \<and> fst (main (ex_env ''kv/a:a,kv/b:b'' None) [(''a'', ''kv/a''), (''b'', ''kv/b'')]
      (ex_world [ex_secret ''a'' None, ex_secret ''b'' None] [None, Some Unavailable])) = 1"
proof -
  let ?c = "ex_config [(''a'', ''kv/a''), (''b'', ''kv/b'')]"
  let ?w = "ex_world [ex_secret ''a'' None, ex_secret ''b'' None] [None, Some Unavailable]"
  let ?env = "ex_env ''kv/a:a,kv/b:b'' None"
  have "fst (checkSecrets ?c [(''a'', ''kv/a'')] ?w) = None"
    by (simp add: ex_defs run_defs)
  then have h1: "checkSecrets ?c [(''a'', ''kv/a'')] ?w = (None, snd (checkSecrets ?c [(''a'', ''kv/a'')] ?w))"
    by (metis prod.collapse)
  have h2: "faults (snd (checkSecrets ?c [(''a'', ''kv/a'')] ?w)) = Some Unavailable # []"
    by (simp add: ex_defs run_defs)
  have l: "lookup (store ?w ''default'') ''a'' \<noteq> None" "lookup (store ?w ''default'') ''b'' \<noteq> None"
    by (simp_all add: lookup_def ex_defs)
  have e: "newFromEnvironment ?env = Inr ?c" by (rule ex_env_config)
  have t: "loadToken ?env ?c = Inl (Wrap (External ''no such file'') ''could not get vault token'')"
    by (simp add: loadToken_def ex_env_def ex_config_def)
  from degraded_check_any_error [OF h1 h2, of "''b''" "''kv/b''" "[]" ?env
      "Wrap (External ''no such file'') ''could not get vault token''"] e t h1 h2 l
  show ?thesis by simp
qed

subsection \<open>The second phase: the obsolete secrets\<close>

lemma deletes_of_append: "deletes_of (xs @ ys) = deletes_of xs @ deletes_of ys"
  by (induction xs rule: deletes_of.induct) simp_all

lemma obsolete_code:
  "obsolete c s \<longleftrightarrow> \<not> (Annotations s vaultAnnotation = None) \<and> \<not> (map_of (Secrets c) (Name s) \<noteq> None)"
  by (simp add: obsolete_def desired_def map_of_eq_None_iff)

lemma delete_loop_step:
  obtains (skip) "\<not> obsolete c s" "delete_loop c (s # ss) w = delete_loop c ss w"
  | (ok) w1 where "obsolete c s"
      "k8s_Delete (Namespace c) (Name s) (println (LogDelete (Name s)) w) = (None, w1)"
      "delete_loop c (s # ss) w = delete_loop c ss w1"
  | (fail) e w1 where "obsolete c s"
      "k8s_Delete (Namespace c) (Name s) (println (LogDelete (Name s)) w) = (Some e, w1)"
      "delete_loop c (s # ss) w = delete_loop c ss
         (println (LogDeleteFailed (Wrap e (''delete obsolete vault secret '' @ Name s @ '' failed''))) w1)"
proof (cases "obsolete c s")
  case False
  then have "delete_loop c (s # ss) w = delete_loop c ss w"
    unfolding obsolete_code by auto
  with False show ?thesis by (rule skip)
next
  case True
  then have a: "Annotations s vaultAnnotation \<noteq> None" "map_of (Secrets c) (Name s) = None"
    unfolding obsolete_code by auto
  obtain r w1 where d: "k8s_Delete (Namespace c) (Name s) (println (LogDelete (Name s)) w) = (r, w1)"
    by (cases "k8s_Delete (Namespace c) (Name s) (println (LogDelete (Name s)) w)")
  show ?thesis
  proof (cases r)
    case None
    with d have d': "k8s_Delete (Namespace c) (Name s) (println (LogDelete (Name s)) w) = (None, w1)"
      by simp
    with a have "delete_loop c (s # ss) w = delete_loop c ss w1" by auto
    with True d' show ?thesis by (rule ok)
  next
    case (Some e)
    with d have d': "k8s_Delete (Namespace c) (Name s) (println (LogDelete (Name s)) w) = (Some e, w1)"
      by simp
    with a have "delete_loop c (s # ss) w = delete_loop c ss
         (println (LogDeleteFailed (Wrap e (''delete obsolete vault secret '' @ Name s @ '' failed''))) w1)"
      by auto
    with True d' show ?thesis by (rule fail)
  qed
qed

lemma delete_loop_deletes:
  "deletes_of (logs (delete_loop c items w)) = deletes_of (logs w) @ map Name (filter (obsolete c) items)"
proof (induction items arbitrary: w)
  case Nil
  then show ?case by simp
next
  case (Cons s ss)
  show ?case
  proof (cases rule: delete_loop_step [where c = c and s = s and ss = ss and w = w])
    case skip
    then show ?thesis by (simp add: Cons.IH)
  next
    case (ok w1)
    then show ?thesis using k8s_Delete_ok [OF ok(2)] by (simp add: Cons.IH deletes_of_append)
  next
    case (fail e w1)
    then show ?thesis using k8s_Delete_err [OF fail(2)] by (simp add: Cons.IH deletes_of_append)
  qed
qed

lemma delete_loop_frame:
  "heap (delete_loop c items w) = heap w \<and> allocated (delete_loop c items w) = allocated w \<and>
   (\<forall>ns. ns \<noteq> Namespace c \<longrightarrow> store (delete_loop c items w) ns = store w ns) \<and>
   (\<exists>evs. logs (delete_loop c items w) = logs w @ evs \<and>
      (\<forall>e \<in> set evs. is_delete e \<or> is_delete_failed e))"
proof (induction items arbitrary: w)
  case Nil
  then show ?case by simp
next
  case (Cons s ss)
  show ?case
  proof (cases rule: delete_loop_step [where c = c and s = s and ss = ss and w = w])
    case skip
    then show ?thesis by (simp add: Cons.IH)
  next
    case (ok w1)
    from Cons.IH [of w1] obtain evs where
      evs: "logs (delete_loop c ss w1) = logs w1 @ evs" "\<forall>e \<in> set evs. is_delete e \<or> is_delete_failed e"
      by blast
    have "\<exists>evs'. logs w @ LogDelete (Name s) # evs = logs w @ evs' \<and>
        (\<forall>e \<in> set evs'. is_delete e \<or> is_delete_failed e)"
      using evs(2) by (intro exI [of _ "LogDelete (Name s) # evs"]) simp
    then show ?thesis using ok(3) k8s_Delete_ok [OF ok(2)] Cons.IH [of w1] evs(1) by simp
  next
    case (fail e w1)
    let ?w2 = "println (LogDeleteFailed (Wrap e (''delete obsolete vault secret '' @ Name s @ '' failed''))) w1"
    from Cons.IH [of ?w2] obtain evs where
      evs: "logs (delete_loop c ss ?w2) = logs ?w2 @ evs" "\<forall>e \<in> set evs. is_delete e \<or> is_delete_failed e"
      by blast
    have "\<exists>evs'. logs w @ LogDelete (Name s) #
          LogDeleteFailed (Wrap e (''delete obsolete vault secret '' @ Name s @ '' failed'')) # evs = logs w @ evs' \<and>
        (\<forall>e \<in> set evs'. is_delete e \<or> is_delete_failed e)"
      using evs(2) by (intro exI [of _ "LogDelete (Name s) #
          LogDeleteFailed (Wrap e (''delete obsolete vault secret '' @ Name s @ '' failed'')) # evs"]) simp
    then show ?thesis using fail(3) k8s_Delete_err [OF fail(2)] Cons.IH [of ?w2] evs(1) by simp
  qed
qed

lemma delete_loop_keeps:
  "set (store (delete_loop c items w) (Namespace c)) \<subseteq> set (store w (Namespace c)) \<and>
   (\<forall>t \<in> set (store w (Namespace c)). Name t \<notin> Name ` {s \<in> set items. obsolete c s} \<longrightarrow>
      t \<in> set (store (delete_loop c items w) (Namespace c)))"
proof (induction items arbitrary: w)
  case Nil
  then show ?case by simp
next
  case (Cons s ss)
  show ?case
  proof (cases rule: delete_loop_step [where c = c and s = s and ss = ss and w = w])
    case skip
    then show ?thesis using Cons.IH [of w] by auto
  next
    case (ok w1)
    have st: "store w1 (Namespace c) = filter (\<lambda>t. Name t \<noteq> Name s) (store w (Namespace c))"
      using k8s_Delete_ok [OF ok(2)] by simp
    show ?thesis using Cons.IH [of w1] ok(1,3) st by auto
  next
    case (fail e w1)
    let ?w2 = "println (LogDeleteFailed (Wrap e (''delete obsolete vault secret '' @ Name s @ '' failed''))) w1"
    have st: "store ?w2 (Namespace c) = store w (Namespace c)"
      using k8s_Delete_err [OF fail(2)] by simp
    show ?thesis using Cons.IH [of ?w2] fail(1,3) st by auto
  qed
qed

lemma delete_loop_complete:
  "\<forall>e \<in> set (logs (delete_loop c items w)). \<not> is_delete_failed e \<Longrightarrow>
   store (delete_loop c items w) (Namespace c) =
     filter (\<lambda>t. Name t \<notin> Name ` {s \<in> set items. obsolete c s}) (store w (Namespace c))"
proof (induction items arbitrary: w)
  case Nil
  then show ?case by simp
next
  case (Cons s ss)
  show ?case
  proof (cases rule: delete_loop_step [where c = c and s = s and ss = ss and w = w])
    case skip
    then show ?thesis using Cons.IH [of w] Cons.prems by (auto intro: filter_cong)
  next
    case (ok w1)
    have st: "store w1 (Namespace c) = filter (\<lambda>t. Name t \<noteq> Name s) (store w (Namespace c))"
      using k8s_Delete_ok [OF ok(2)] by simp
    have "store (delete_loop c ss w1) (Namespace c) =
       filter (\<lambda>t. Name t \<notin> Name ` {s \<in> set ss. obsolete c s}) (store w1 (Namespace c))"
      using Cons.IH [of w1] Cons.prems ok(3) by simp
    then show ?thesis using ok(1,3) st by (auto intro: filter_cong)
  next
    case (fail e w1)
    let ?w2 = "println (LogDeleteFailed (Wrap e (''delete obsolete vault secret '' @ Name s @ '' failed''))) w1"
    from delete_loop_frame [of c ss ?w2] obtain evs where
      "logs (delete_loop c ss ?w2) = logs ?w2 @ evs" by blast
    then have "LogDeleteFailed (Wrap e (''delete obsolete vault secret '' @ Name s @ '' failed''))
       \<in> set (logs (delete_loop c (s # ss) w))" using fail(3) by simp
    with Cons.prems have False by fastforce
    then show ?thesis ..
  qed
qed

lemma delete_loop_nothing:
  "\<forall>s \<in> set items. \<not> obsolete c s \<Longrightarrow> delete_loop c items w = w"
proof (induction items arbitrary: w)
  case Nil
  then show ?case by simp
next
  case (Cons s ss)
  then show ?case
    by (cases rule: delete_loop_step [where c = c and s = s and ss = ss and w = w]) simp_all
qed

lemma cleanup_list_fails:
  assumes "faults w = Some f # fs"
  shows "cleanup c w = (Exited 0, println (LogCleanupFailed
           (Wrap (Status (Failure f)) ''cleanup of unused vault secrets failed'')) (w\<lparr>faults := fs\<rparr>))"
  using assms by (simp add: cleanup_def k8s_List_def take_fault_def)

lemma cleanup_list_ok:
  assumes "\<not> (\<exists>f fs. faults w = Some f # fs)"
  shows "cleanup c w = (Returned None, delete_loop c (store w (Namespace c)) (snd (take_fault w)))"
    "store (snd (take_fault w)) = store w" "logs (snd (take_fault w)) = logs w"
    "heap (snd (take_fault w)) = heap w" "allocated (snd (take_fault w)) = allocated w"
proof -
  have "fst (take_fault w) = None" using assms
    by (cases "faults w") (auto simp: take_fault_def)
  then obtain w2 where t: "take_fault w = (None, w2)" by (cases "take_fault w") simp
  then have s: "snd (take_fault w) = w2" by simp
  note fr = take_fault_frame [OF t]
  show "store (snd (take_fault w)) = store w" "logs (snd (take_fault w)) = logs w"
    "heap (snd (take_fault w)) = heap w" "allocated (snd (take_fault w)) = allocated w"
    using fr s by simp_all
  have "k8s_List (Namespace c) w = (Inr (store w (Namespace c)), w2)"
    unfolding k8s_List_def using t fr(1) by simp
  then show "cleanup c w = (Returned None, delete_loop c (store w (Namespace c)) (snd (take_fault w)))"
    using s by (simp add: cleanup_def)
qed

lemma sync_loop_abort:
  "sync_loop c token a kvs w = (Some out, w') \<Longrightarrow> out = Panicked \<or> (\<exists>e. out = Returned (Some e))"
proof (induction kvs arbitrary: w)
  case Nil
  then show ?case by simp
next
  case (Cons kv kvs)
  obtain k v where kv: "kv = (k, v)" by (cases kv)
  obtain r w1 where e: "sync_entry c token a (k, v) w = (r, w1)" by (cases "sync_entry c token a (k, v) w")
  show ?case
  proof (cases r)
    case None
    with Cons.prems e have "sync_loop c token a kvs w1 = (Some out, w')" by (simp add: kv)
    then show ?thesis by (rule Cons.IH)
  next
    case (Some out')
    with Cons.prems e have "out' = out" by (simp add: kv)
    with e Some sync_entry_abort [of c token a k v w out w1] show ?thesis by simp
  qed
qed

lemma synchronize_completed:
  assumes "synchronize c kvs token w = (out, w')" "out = Returned None \<or> out = Exited n"
  obtains a w0 w1 where "make_map w = (a, w0)" "sync_loop c token a kvs w0 = (None, w1)"
    "cleanup c w1 = (out, w')"
proof -
  obtain a w0 where mk: "make_map w = (a, w0)" by (cases "make_map w")
  obtain r w1 where l: "sync_loop c token a kvs w0 = (r, w1)" by (cases "sync_loop c token a kvs w0")
  show ?thesis
  proof (cases r)
    case None
    with assms(1) mk l have "cleanup c w1 = (out, w')" by (simp add: synchronize_def)
    have c: "cleanup c w1 = (out, w')" by fact
    from l None have "sync_loop c token a kvs w0 = (None, w1)" by simp
    with mk show ?thesis using c by (rule that)
  next
    case (Some out')
    with assms(1) mk l have "out' = out" by (simp add: synchronize_def)
    with sync_loop_abort [of c token a kvs w0 out w1] l Some assms(2) have False by auto
    then show ?thesis ..
  qed
qed

lemma managed_names_filter_obsolete:
  "managed_names (filter (\<lambda>t. Name t \<notin> Name ` {s \<in> set objs. obsolete c s}) objs) =
     managed_names objs \<inter> desired c"
proof (intro set_eqI iffI)
  fix n
  assume "n \<in> managed_names (filter (\<lambda>t. Name t \<notin> Name ` {s \<in> set objs. obsolete c s}) objs)"
  then obtain t where
    t0: "t \<in> set (filter (\<lambda>t. Name t \<notin> Name ` {s \<in> set objs. obsolete c s}) objs)"
    and t3: "Name t = n" and t4: "Annotations t vaultAnnotation \<noteq> None"
    unfolding mem_managed_names by blast
  from t0 have t1: "t \<in> set objs" and t2: "Name t \<notin> Name ` {s \<in> set objs. obsolete c s}"
    by simp_all
  from t1 t2 have "\<not> obsolete c t" by blast
  with t4 have "Name t \<in> desired c" by (simp add: obsolete_def)
  moreover have "n \<in> managed_names objs" unfolding mem_managed_names using t1 t3 t4 by blast
  ultimately show "n \<in> managed_names objs \<inter> desired c" using t3 by simp
next
  fix n
  assume "n \<in> managed_names objs \<inter> desired c"
  then have "n \<in> managed_names objs" and d: "n \<in> desired c" by simp_all
  then obtain t where t: "t \<in> set objs" "Name t = n" "Annotations t vaultAnnotation \<noteq> None"
    unfolding mem_managed_names by blast
  have "Name t \<notin> Name ` {s \<in> set objs. obsolete c s}"
  proof
    assume "Name t \<in> Name ` {s \<in> set objs. obsolete c s}"
    then obtain s where "obsolete c s" "Name s = Name t" by auto
    with t(2) d show False by (simp add: obsolete_def)
  qed
  with t(1) have "t \<in> set (filter (\<lambda>t. Name t \<notin> Name ` {s \<in> set objs. obsolete c s}) objs)"
    by simp
  with t(2,3) show "n \<in> managed_names (filter (\<lambda>t. Name t \<notin> Name ` {s \<in> set objs. obsolete c s}) objs)"
    unfolding mem_managed_names by blast
qed

lemma synchronize_converges:
  assumes rng: "range_of (Secrets c) kvs"
    and run: "synchronize c kvs token w = (Returned None, w')"
    and ok: "\<forall>e \<in> set (logs w'). \<not> is_delete_failed e"
  shows "managed_names (store w' (Namespace c)) = desired c"
proof -
  from run obtain a w0 w1 where mk: "make_map w = (a, w0)"
    and loop: "sync_loop c token a kvs w0 = (None, w1)" and cl: "cleanup c w1 = (Returned None, w')"
    by (rule synchronize_completed [where n = 0]) simp
  have nf: "\<not> (\<exists>f fs. faults w1 = Some f # fs)"
  proof
    assume "\<exists>f fs. faults w1 = Some f # fs"
    then obtain f fs where "faults w1 = Some f # fs" by blast
    from cleanup_list_fails [OF this, of c] cl show False by simp
  qed
  note lo = cleanup_list_ok [OF nf]
  from lo(1) [of c] cl have w': "w' = delete_loop c (store w1 (Namespace c)) (snd (take_fault w1))" by simp
  have "store w' (Namespace c) =
      filter (\<lambda>t. Name t \<notin> Name ` {s \<in> set (store w1 (Namespace c)). obsolete c s})
        (store w1 (Namespace c))"
    using delete_loop_complete [of c "store w1 (Namespace c)" "snd (take_fault w1)"] ok lo(2)
    unfolding w' by simp
  then have "managed_names (store w' (Namespace c)) = managed_names (store w1 (Namespace c)) \<inter> desired c"
    by (simp add: managed_names_filter_obsolete)
  moreover have "managed_names (store w1 (Namespace c)) =
      desired c \<union> managed_names (store w0 (Namespace c))"
    using sync_loop_managed [OF loop] range_of_keys [OF rng] by simp
  ultimately show ?thesis by blast
qed

text \<open>
  C1. Convergence: when \<^verbatim>\<open>synchronize\<close> returns nil and no deletion has failed (no line of a
  failed deletion is in the log), the names of the secrets of the namespace that carry the
  annotation are exactly the desired local names, for every order of the range.
\<close>

theorem convergence:
  assumes rng: "range_of (Secrets c) kvs"
    and run: "synchronize c kvs token w = (Returned None, w')"
    and ok: "\<forall>e \<in> set (logs w'). \<not> is_delete_failed e"
  shows "managed_names (store w' (Namespace c)) = desired c"
  using rng run ok by (rule synchronize_converges)

theorem convergence_witness:
  "range_of (Secrets (ex_config [(''a'', ''kv/a''), (''b'', ''kv/b'')])) [(''b'', ''kv/b''), (''a'', ''kv/a'')]
   \<and> fst (synchronize (ex_config [(''a'', ''kv/a''), (''b'', ''kv/b'')]) [(''b'', ''kv/b''), (''a'', ''kv/a'')] ''t''
        (ex_world [ex_secret ''a'' (Some ''kv/old''), ex_secret ''c'' (Some ''kv/c''), ex_secret ''d'' None] []))
       = Returned None
   \<and> logs (snd (synchronize (ex_config [(''a'', ''kv/a''), (''b'', ''kv/b'')]) [(''b'', ''kv/b''), (''a'', ''kv/a'')] ''t''
        (ex_world [ex_secret ''a'' (Some ''kv/old''), ex_secret ''c'' (Some ''kv/c''), ex_secret ''d'' None] [])))
       = [LogRead ''kv/b'', LogCreate ''b'' ''kv/b'', LogRead ''kv/a'', LogUpdate ''a'' ''kv/a'', LogDelete ''c'']
   \<and> managed_names (store (snd (synchronize (ex_config [(''a'', ''kv/a''), (''b'', ''kv/b'')])
        [(''b'', ''kv/b''), (''a'', ''kv/a'')] ''t''
        (ex_world [ex_secret ''a'' (Some ''kv/old''), ex_secret ''c'' (Some ''kv/c''), ex_secret ''d'' None] [])))
        ''default'') = {''a'', ''b''}"
proof -
  let ?c = "ex_config [(''a'', ''kv/a''), (''b'', ''kv/b'')]"
  let ?kvs = "[(''b'', ''kv/b''), (''a'', ''kv/a'')]"
  let ?w = "ex_world [ex_secret ''a'' (Some ''kv/old''), ex_secret ''c'' (Some ''kv/c''), ex_secret ''d'' None] []"
  have h1: "range_of (Secrets ?c) ?kvs" by (simp add: range_of_def ex_config_def)
  have f: "fst (synchronize ?c ?kvs ''t'' ?w) = Returned None"
    by (simp add: ex_defs run_defs)
  then have h2: "synchronize ?c ?kvs ''t'' ?w = (Returned None, snd (synchronize ?c ?kvs ''t'' ?w))"
    by (metis prod.collapse)
  have l: "logs (snd (synchronize ?c ?kvs ''t'' ?w)) =
      [LogRead ''kv/b'', LogCreate ''b'' ''kv/b'', LogRead ''kv/a'', LogUpdate ''a'' ''kv/a'', LogDelete ''c'']"
    by (simp add: ex_defs run_defs)
  then have h3: "\<forall>e \<in> set (logs (snd (synchronize ?c ?kvs ''t'' ?w))). \<not> is_delete_failed e"
    by simp
  have d: "desired ?c = {''a'', ''b''}" by (auto simp: desired_def ex_config_def)
  have n: "Namespace ?c = ''default''" by (simp add: ex_config_def)
  from convergence [OF h1 h2 h3] d n h1 f l show ?thesis by simp
qed

text \<open>
  C3. The scope of the deletions. The names of the stored secrets of a namespace are
  distinct. A secret that was in the namespace before the second phase and is not there
  after it carried the annotation and its name is not desired: a secret with no annotation
  stays, whatever its name, and so does an annotated secret whose name is desired. Nothing
  is added, and every call of \<^verbatim>\<open>Delete\<close> names an annotated secret of the list whose name is
  not desired.
\<close>

theorem deletion_scoped:
  assumes cl: "cleanup c w = (out, w')" and dn: "distinct (map Name (store w (Namespace c)))"
  shows "(\<forall>s \<in> set (store w (Namespace c)). s \<notin> set (store w' (Namespace c)) \<longrightarrow>
            Annotations s vaultAnnotation \<noteq> None \<and> Name s \<notin> desired c)
     \<and> set (store w' (Namespace c)) \<subseteq> set (store w (Namespace c))
     \<and> (\<exists>ds. deletes_of (logs w') = deletes_of (logs w) @ ds \<and>
           (\<forall>n \<in> set ds. \<exists>s \<in> set (store w (Namespace c)).
               Name s = n \<and> Annotations s vaultAnnotation \<noteq> None \<and> n \<notin> desired c))"
proof (cases "\<exists>f fs. faults w = Some f # fs")
  case True
  then obtain f fs where "faults w = Some f # fs" by blast
  from cleanup_list_fails [OF this, of c] cl
  have "store w' = store w" "logs w' = logs w @ [LogCleanupFailed
           (Wrap (Status (Failure f)) ''cleanup of unused vault secrets failed'')]"
    by auto
  then show ?thesis by (simp add: deletes_of_append)
next
  case False
  note lo = cleanup_list_ok [OF False]
  let ?items = "store w (Namespace c)"
  let ?wt = "snd (take_fault w)"
  from lo(1) [of c] cl have w': "w' = delete_loop c ?items ?wt" by simp
  note keep = delete_loop_keeps [of c ?items ?wt]
  have sub: "set (store w' (Namespace c)) \<subseteq> set ?items" using keep lo(2) w' by simp
  have a: "\<forall>s \<in> set ?items. s \<notin> set (store w' (Namespace c)) \<longrightarrow>
            Annotations s vaultAnnotation \<noteq> None \<and> Name s \<notin> desired c"
  proof (intro ballI impI)
    fix s assume s: "s \<in> set ?items" "s \<notin> set (store w' (Namespace c))"
    with keep lo(2) w' have "Name s \<in> Name ` {t \<in> set ?items. obsolete c t}" by auto
    then obtain t where t: "t \<in> set ?items" "obsolete c t" "Name t = Name s" by auto
    from dn have "inj_on Name (set ?items)" by (simp add: distinct_map)
    with t(1,3) s(1) have "t = s" by (auto dest: inj_onD)
    with t(2) show "Annotations s vaultAnnotation \<noteq> None \<and> Name s \<notin> desired c"
      by (simp add: obsolete_def)
  qed
  have "deletes_of (logs w') = deletes_of (logs w) @ map Name (filter (obsolete c) ?items)"
    using delete_loop_deletes [of c ?items ?wt] lo(3) w' by simp
  moreover have "\<forall>n \<in> set (map Name (filter (obsolete c) ?items)). \<exists>s \<in> set ?items.
               Name s = n \<and> Annotations s vaultAnnotation \<noteq> None \<and> n \<notin> desired c"
    by (auto simp: obsolete_def)
  ultimately have "\<exists>ds. deletes_of (logs w') = deletes_of (logs w) @ ds \<and>
           (\<forall>n \<in> set ds. \<exists>s \<in> set ?items.
               Name s = n \<and> Annotations s vaultAnnotation \<noteq> None \<and> n \<notin> desired c)"
    by blast
  with a sub show ?thesis by blast
qed

theorem deletion_scoped_witness:
  "cleanup (ex_config [(''a'', ''kv/a''), (''b'', ''kv/b'')])
      (ex_world [ex_secret ''a'' (Some ''kv/a''), ex_secret ''c'' (Some ''kv/c''), ex_secret ''d'' None] []) =
     (Returned None, snd (cleanup (ex_config [(''a'', ''kv/a''), (''b'', ''kv/b'')])
      (ex_world [ex_secret ''a'' (Some ''kv/a''), ex_secret ''c'' (Some ''kv/c''), ex_secret ''d'' None] [])))
   \<and> distinct (map Name (store
        (ex_world [ex_secret ''a'' (Some ''kv/a''), ex_secret ''c'' (Some ''kv/c''), ex_secret ''d'' None] [])
        (Namespace (ex_config [(''a'', ''kv/a''), (''b'', ''kv/b'')]))))
   \<and> Annotations (ex_secret ''d'' None) vaultAnnotation = None
   \<and> Name (ex_secret ''a'' (Some ''kv/a'')) \<in> desired (ex_config [(''a'', ''kv/a''), (''b'', ''kv/b'')])
   \<and> ex_secret ''d'' None \<in> set (store (snd (cleanup (ex_config [(''a'', ''kv/a''), (''b'', ''kv/b'')])
      (ex_world [ex_secret ''a'' (Some ''kv/a''), ex_secret ''c'' (Some ''kv/c''), ex_secret ''d'' None] [])))
      ''default'')
   \<and> ex_secret ''a'' (Some ''kv/a'') \<in> set (store (snd (cleanup (ex_config [(''a'', ''kv/a''), (''b'', ''kv/b'')])
      (ex_world [ex_secret ''a'' (Some ''kv/a''), ex_secret ''c'' (Some ''kv/c''), ex_secret ''d'' None] [])))
      ''default'')
   \<and> map Name (store (snd (cleanup (ex_config [(''a'', ''kv/a''), (''b'', ''kv/b'')])
      (ex_world [ex_secret ''a'' (Some ''kv/a''), ex_secret ''c'' (Some ''kv/c''), ex_secret ''d'' None] [])))
      ''default'') = [''a'', ''d'']"
proof -
  let ?c = "ex_config [(''a'', ''kv/a''), (''b'', ''kv/b'')]"
  let ?w = "ex_world [ex_secret ''a'' (Some ''kv/a''), ex_secret ''c'' (Some ''kv/c''), ex_secret ''d'' None] []"
  have "fst (cleanup ?c ?w) = Returned None" by (simp add: ex_defs run_defs)
  then have h1: "cleanup ?c ?w = (Returned None, snd (cleanup ?c ?w))" by (metis prod.collapse)
  have h2: "distinct (map Name (store ?w (Namespace ?c)))" by (simp add: ex_defs)
  have n: "Namespace ?c = ''default''" by (simp add: ex_config_def)
  have m: "Annotations (ex_secret ''d'' None) vaultAnnotation = None"
    "Name (ex_secret ''a'' (Some ''kv/a'')) \<in> desired ?c"
    "ex_secret ''d'' None \<in> set (store ?w ''default'')"
    "ex_secret ''a'' (Some ''kv/a'') \<in> set (store ?w ''default'')"
    by (simp_all add: ex_defs desired_def)
  have r: "map Name (store (snd (cleanup ?c ?w)) ''default'') = [''a'', ''d'']"
    by (simp add: ex_defs run_defs)
  from deletion_scoped [OF h1 h2] n m
  have "ex_secret ''d'' None \<in> set (store (snd (cleanup ?c ?w)) ''default'')"
    "ex_secret ''a'' (Some ''kv/a'') \<in> set (store (snd (cleanup ?c ?w)) ''default'')"
    by auto
  with h1 h2 m r show ?thesis by simp
qed

text \<open>
  C4. Failures of the second phase are not fatal. When the first loop has gone through,
  the process exits with 0. When \<^verbatim>\<open>List\<close> fails, \<^verbatim>\<open>synchronize\<close> ends the process with
  \<^verbatim>\<open>os.Exit(0)\<close>, the store is left as the first loop made it and no deletion is attempted.
  Otherwise \<^verbatim>\<open>synchronize\<close> returns nil and \<^verbatim>\<open>Delete\<close> is called for every obsolete secret of
  the list, in the order of the list, whichever of these calls fail.
\<close>

theorem cleanup_failures_not_fatal:
  assumes cfg: "newFromEnvironment env = Inr c" and tok: "loadToken env c = Inr token"
    and mk: "make_map w = (a, w0)" and loop: "sync_loop c token a kvs w0 = (None, w1)"
  shows "fst (main env kvs w) = 0
    \<and> ((\<exists>f fs. faults w1 = Some f # fs) \<longrightarrow>
         fst (synchronize c kvs token w) = Exited 0
         \<and> store (snd (synchronize c kvs token w)) = store w1
         \<and> deletes_of (logs (snd (synchronize c kvs token w))) = deletes_of (logs w1))
    \<and> (\<not> (\<exists>f fs. faults w1 = Some f # fs) \<longrightarrow>
         fst (synchronize c kvs token w) = Returned None
         \<and> deletes_of (logs (snd (synchronize c kvs token w))) =
             deletes_of (logs w1) @ map Name (filter (obsolete c) (store w1 (Namespace c))))"
proof -
  have s: "synchronize c kvs token w = cleanup c w1"
    using mk loop by (simp add: synchronize_def)
  show ?thesis
  proof (cases "\<exists>f fs. faults w1 = Some f # fs")
    case True
    then obtain f fs where f: "faults w1 = Some f # fs" by blast
    note cl = cleanup_list_fails [OF f, of c]
    have "fst (main env kvs w) = 0" using cfg tok s cl by (simp add: main_def)
    then show ?thesis using True s cl by (simp add: deletes_of_append)
  next
    case False
    note lo = cleanup_list_ok [OF False]
    have "fst (main env kvs w) = 0" using cfg tok s lo(1) [of c] by (simp add: main_def)
    moreover have "deletes_of (logs (snd (synchronize c kvs token w))) =
             deletes_of (logs w1) @ map Name (filter (obsolete c) (store w1 (Namespace c)))"
      using s lo(1) [of c] lo(3) delete_loop_deletes [of c "store w1 (Namespace c)" "snd (take_fault w1)"]
      by simp
    ultimately show ?thesis using False s lo(1) [of c] by simp
  qed
qed

theorem cleanup_failures_not_fatal_witness:
  "newFromEnvironment (ex_env ''kv/a:a'' (Some ''t'')) = Inr (ex_config [(''a'', ''kv/a'')])
   \<and> loadToken (ex_env ''kv/a:a'' (Some ''t'')) (ex_config [(''a'', ''kv/a'')]) = Inr ''t''
   \<and> make_map (ex_world [ex_secret ''c'' (Some ''kv/c''), ex_secret ''e'' (Some ''kv/e'')]
          [None, None, None, Some Unavailable]) =
        (0, snd (make_map (ex_world [ex_secret ''c'' (Some ''kv/c''), ex_secret ''e'' (Some ''kv/e'')]
          [None, None, None, Some Unavailable])))
   \<and> fst (sync_loop (ex_config [(''a'', ''kv/a'')]) ''t'' 0 [(''a'', ''kv/a'')]
          (snd (make_map (ex_world [ex_secret ''c'' (Some ''kv/c''), ex_secret ''e'' (Some ''kv/e'')]
          [None, None, None, Some Unavailable])))) = None
   \<and> fst (main (ex_env ''kv/a:a'' (Some ''t'')) [(''a'', ''kv/a'')]
          (ex_world [ex_secret ''c'' (Some ''kv/c''), ex_secret ''e'' (Some ''kv/e'')]
          [None, None, None, Some Unavailable])) = 0
   \<and> logs (snd (synchronize (ex_config [(''a'', ''kv/a'')]) [(''a'', ''kv/a'')] ''t''
          (ex_world [ex_secret ''c'' (Some ''kv/c''), ex_secret ''e'' (Some ''kv/e'')]
          [None, None, None, Some Unavailable]))) =
        [LogRead ''kv/a'', LogCreate ''a'' ''kv/a'', LogDelete ''c'',
         LogDeleteFailed (Wrap (Status (Failure Unavailable)) ''delete obsolete vault secret c failed''),
         LogDelete ''e'']
   \<and> map Name (store (snd (synchronize (ex_config [(''a'', ''kv/a'')]) [(''a'', ''kv/a'')] ''t''
          (ex_world [ex_secret ''c'' (Some ''kv/c''), ex_secret ''e'' (Some ''kv/e'')]
          [None, None, None, Some Unavailable]))) ''default'') = [''c'', ''a'']
   \<and> fst (main (ex_env ''kv/a:a'' (Some ''t'')) [(''a'', ''kv/a'')]
          (ex_world [ex_secret ''c'' (Some ''kv/c'')] [None, None, Some Forbidden])) = 0
   \<and> fst (synchronize (ex_config [(''a'', ''kv/a'')]) [(''a'', ''kv/a'')] ''t''
          (ex_world [ex_secret ''c'' (Some ''kv/c'')] [None, None, Some Forbidden])) = Exited 0"
proof -
  let ?env = "ex_env ''kv/a:a'' (Some ''t'')"
  let ?c = "ex_config [(''a'', ''kv/a'')]"
  let ?kvs = "[(''a'', ''kv/a'')]"
  let ?w = "ex_world [ex_secret ''c'' (Some ''kv/c''), ex_secret ''e'' (Some ''kv/e'')]
          [None, None, None, Some Unavailable]"
  let ?w' = "ex_world [ex_secret ''c'' (Some ''kv/c'')] [None, None, Some Forbidden]"
  have h1: "newFromEnvironment ?env = Inr ?c"
    by (simp add: newFromEnvironment_def ex_env_def ex_config_def Let_def trim_ascii_def is_space_def)
  have h2: "loadToken ?env ?c = Inr ''t''"
    by (simp add: loadToken_def ex_env_def ex_config_def)
  have h3: "make_map ?w = (0, snd (make_map ?w))" "make_map ?w' = (0, snd (make_map ?w'))"
    by (simp_all add: make_map_def ex_world_def)
  have f: "fst (sync_loop ?c ''t'' 0 ?kvs (snd (make_map ?w))) = None"
    "fst (sync_loop ?c ''t'' 0 ?kvs (snd (make_map ?w'))) = None"
    by (simp_all add: ex_defs run_defs)
  then have h4: "sync_loop ?c ''t'' 0 ?kvs (snd (make_map ?w)) =
      (None, snd (sync_loop ?c ''t'' 0 ?kvs (snd (make_map ?w))))"
    "sync_loop ?c ''t'' 0 ?kvs (snd (make_map ?w')) =
      (None, snd (sync_loop ?c ''t'' 0 ?kvs (snd (make_map ?w'))))"
    by (metis prod.collapse)+
  have l: "logs (snd (synchronize ?c ?kvs ''t'' ?w)) =
        [LogRead ''kv/a'', LogCreate ''a'' ''kv/a'', LogDelete ''c'',
         LogDeleteFailed (Wrap (Status (Failure Unavailable)) ''delete obsolete vault secret c failed''),
         LogDelete ''e'']"
    by (simp add: ex_defs run_defs)
  have s: "map Name (store (snd (synchronize ?c ?kvs ''t'' ?w)) ''default'') = [''c'', ''a'']"
    by (simp add: ex_defs run_defs)
  have x: "fst (synchronize ?c ?kvs ''t'' ?w') = Exited 0"
    by (simp add: ex_defs run_defs)
  from cleanup_failures_not_fatal [OF h1 h2 h3(1) h4(1)]
  have r1: "fst (main ?env ?kvs ?w) = 0" by simp
  from cleanup_failures_not_fatal [OF h1 h2 h3(2) h4(2)]
  have r2: "fst (main ?env ?kvs ?w') = 0" by simp
  from h1 h2 h3(1) f(1) r1 l s r2 x show ?thesis by simp
qed

subsection \<open>The first phase: what is written\<close>

lemma only_marker:
  "dom m \<subseteq> {k} \<Longrightarrow> m(k \<mapsto> v) = [k \<mapsto> v]"
  by (rule ext) (auto simp: domIff subset_iff)

lemma lookup_Some_name: "lookup objs k = Some s \<Longrightarrow> Name s = k \<and> s \<in> set objs"
  unfolding lookup_def by (induction objs) (auto split: if_splits)

lemma only_named_lookup: "only_named k obj objs \<Longrightarrow> lookup objs k = Some obj"
proof -
  assume a: "only_named k obj objs"
  then obtain s where s: "lookup objs k = Some s" by (auto simp: only_named_def)
  from lookup_Some_name [OF s] a have "s = obj" by (simp add: only_named_def)
  with s show ?thesis by simp
qed

lemma replace_same:
  "\<forall>t \<in> set objs. Name t = k \<longrightarrow> t = obj \<Longrightarrow> map (\<lambda>t. if Name t = k then obj else t) objs = objs"
  by (induction objs) auto

lemma only_named_append_new:
  assumes "lookup objs k = None" "Name obj = k"
  shows "only_named k obj (objs @ [obj])"
  using assms by (auto simp: only_named_def lookup_None_iff image_iff)

lemma only_named_replace:
  assumes "lookup objs k \<noteq> None" "Name obj = k"
  shows "only_named k obj (map (\<lambda>t. if Name t = k then obj else t) objs)"
proof -
  from assms(1) obtain t where t: "t \<in> set objs" "Name t = k"
    by (auto simp: lookup_None_iff)
  then have o: "obj \<in> set (map (\<lambda>t. if Name t = k then obj else t) objs)"
    by (simp only: set_map) (rule image_eqI [of _ _ t], simp_all)
  have "k \<in> Name ` set (map (\<lambda>t. if Name t = k then obj else t) objs)"
  proof (rule image_eqI [where x = obj])
    show "k = Name obj" using assms(2) by simp
    show "obj \<in> set (map (\<lambda>t. if Name t = k then obj else t) objs)" by (rule o)
  qed
  then have "lookup (map (\<lambda>t. if Name t = k then obj else t) objs) k \<noteq> None"
    by (simp only: lookup_None_iff not_not)
  moreover have "\<forall>t \<in> set (map (\<lambda>t. if Name t = k then obj else t) objs). Name t = k \<longrightarrow> t = obj"
    by auto
  ultimately show ?thesis by (simp only: only_named_def simp_thms)
qed

lemma only_named_append_other:
  assumes "only_named k obj objs" "Name obj' \<noteq> k"
  shows "only_named k obj (objs @ [obj'])"
  using assms by (auto simp: only_named_def lookup_None_iff image_iff)

lemma only_named_replace_other:
  assumes "only_named k obj objs" "Name obj' = k'" "k' \<noteq> k"
  shows "only_named k obj (map (\<lambda>t. if Name t = k' then obj' else t) objs)"
proof -
  from assms(1) obtain t where t: "t \<in> set objs" "Name t = k"
    by (auto simp: only_named_def lookup_None_iff)
  with assms(3) have o: "t \<in> set (map (\<lambda>t. if Name t = k' then obj' else t) objs)"
    by (simp only: set_map) (rule image_eqI [of _ _ t], simp_all)
  have "k \<in> Name ` set (map (\<lambda>t. if Name t = k' then obj' else t) objs)"
  proof (rule image_eqI [where x = t])
    show "k = Name t" using t(2) by simp
    show "t \<in> set (map (\<lambda>t. if Name t = k' then obj' else t) objs)" by (rule o)
  qed
  then have "lookup (map (\<lambda>t. if Name t = k' then obj' else t) objs) k \<noteq> None"
    by (simp only: lookup_None_iff not_not)
  moreover have "\<forall>t \<in> set (map (\<lambda>t. if Name t = k' then obj' else t) objs). Name t = k \<longrightarrow> t = obj"
    using assms by (auto simp: only_named_def)
  ultimately show ?thesis by (simp only: only_named_def simp_thms)
qed

lemma sync_entry_written:
  assumes e: "sync_entry c token a (k, v) w = (None, w')" and h: "dom (heap w a) \<subseteq> {vaultAnnotation}"
  shows "\<exists>data. payload c token v = Some data \<and> only_named k (written k data v) (store w' (Namespace c))"
    and "heap w' a = [vaultAnnotation \<mapsto> v]" and "allocated w' = allocated w"
    and "\<forall>k' obj. k' \<noteq> k \<and> only_named k' obj (store w (Namespace c)) \<longrightarrow>
           only_named k' obj (store w' (Namespace c))"
proof -
  let ?ns = "Namespace c"
  have m: "(heap w a)(vaultAnnotation \<mapsto> v) = [vaultAnnotation \<mapsto> v]"
    using h by (rule only_marker)
  from sync_entry_ok [OF e] obtain s data where
    rd: "vaultClient c token v = Inr s" and cv: "convert_data s = Some data" and
    hp: "heap w' = (heap w)(a := (heap w a)(vaultAnnotation \<mapsto> v))" and al: "allocated w' = allocated w" and
    st: "(lookup (store w ?ns) k = None \<and>
        store w' = (store w)(?ns := store w ?ns @
           [\<lparr>Name = k, Data = data, Annotations = (heap w a)(vaultAnnotation \<mapsto> v)\<rparr>])) \<or>
       (lookup (store w ?ns) k \<noteq> None \<and>
        store w' = (store w)(?ns := map (\<lambda>t. if Name t = k then
            \<lparr>Name = k, Data = data, Annotations = (heap w a)(vaultAnnotation \<mapsto> v)\<rparr> else t)
            (store w ?ns)))"
    by blast
  have p: "payload c token v = Some data" using rd cv by (simp add: payload_def)
  have wr: "\<lparr>Name = k, Data = data, Annotations = (heap w a)(vaultAnnotation \<mapsto> v)\<rparr> = written k data v"
    by (simp add: written_def m)
  have nm: "Name (written k data v) = k" by (simp add: written_def)
  show "heap w' a = [vaultAnnotation \<mapsto> v]" using hp m by simp
  show "allocated w' = allocated w" by (rule al)
  let ?obj = "written k data v"
  have st': "(lookup (store w ?ns) k = None \<and> store w' ?ns = store w ?ns @ [?obj]) \<or>
       (lookup (store w ?ns) k \<noteq> None \<and>
        store w' ?ns = map (\<lambda>t. if Name t = k then ?obj else t) (store w ?ns))"
    using st unfolding wr by auto
  have "only_named k ?obj (store w' ?ns)"
    using st'
  proof
    assume a: "lookup (store w ?ns) k = None \<and> store w' ?ns = store w ?ns @ [?obj]"
    then have l: "lookup (store w ?ns) k = None" and s: "store w' ?ns = store w ?ns @ [?obj]"
      by simp_all
    show ?thesis unfolding s using l nm by (rule only_named_append_new)
  next
    assume a: "lookup (store w ?ns) k \<noteq> None \<and>
        store w' ?ns = map (\<lambda>t. if Name t = k then ?obj else t) (store w ?ns)"
    then have l: "lookup (store w ?ns) k \<noteq> None"
      and s: "store w' ?ns = map (\<lambda>t. if Name t = k then ?obj else t) (store w ?ns)"
      by simp_all
    show ?thesis unfolding s using l nm by (rule only_named_replace)
  qed
  with p show "\<exists>data. payload c token v = Some data \<and> only_named k (written k data v) (store w' ?ns)"
    by blast
  show "\<forall>k' obj. k' \<noteq> k \<and> only_named k' obj (store w ?ns) \<longrightarrow> only_named k' obj (store w' ?ns)"
  proof (intro allI impI)
    fix k' obj assume b: "k' \<noteq> k \<and> only_named k' obj (store w ?ns)"
    then have ne: "k \<noteq> k'" "Name ?obj \<noteq> k'" and on: "only_named k' obj (store w ?ns)"
      using nm by auto
    from st' show "only_named k' obj (store w' ?ns)"
    proof
      assume a: "lookup (store w ?ns) k = None \<and> store w' ?ns = store w ?ns @ [?obj]"
      then have s: "store w' ?ns = store w ?ns @ [?obj]" by simp
      show ?thesis unfolding s using on ne(2) by (rule only_named_append_other)
    next
      assume a: "lookup (store w ?ns) k \<noteq> None \<and>
        store w' ?ns = map (\<lambda>t. if Name t = k then ?obj else t) (store w ?ns)"
      then have s: "store w' ?ns = map (\<lambda>t. if Name t = k then ?obj else t) (store w ?ns)" by simp
      show ?thesis unfolding s using on nm ne(1) by (rule only_named_replace_other)
    qed
  qed
qed

lemma sync_loop_written:
  "sync_loop c token a kvs w = (None, w') \<Longrightarrow> dom (heap w a) \<subseteq> {vaultAnnotation} \<Longrightarrow>
   distinct (map fst kvs) \<Longrightarrow>
     allocated w' = allocated w \<and> dom (heap w' a) \<subseteq> {vaultAnnotation} \<and>
     (kvs \<noteq> [] \<longrightarrow> heap w' a = [vaultAnnotation \<mapsto> snd (last kvs)]) \<and>
     (\<forall>(k, v) \<in> set kvs. \<exists>data. payload c token v = Some data \<and>
         only_named k (written k data v) (store w' (Namespace c))) \<and>
     (\<forall>k' obj. k' \<notin> fst ` set kvs \<and> only_named k' obj (store w (Namespace c)) \<longrightarrow>
         only_named k' obj (store w' (Namespace c)))"
proof (induction kvs arbitrary: w)
  case Nil
  then show ?case by simp
next
  case (Cons kv kvs)
  obtain k v where kv: "kv = (k, v)" by (cases kv)
  from Cons.prems(1) obtain w1 where
    e: "sync_entry c token a (k, v) w = (None, w1)" and l: "sync_loop c token a kvs w1 = (None, w')"
    by (auto simp: kv split: prod.splits option.splits)
  note en = sync_entry_written [OF e Cons.prems(2)]
  have h1: "dom (heap w1 a) \<subseteq> {vaultAnnotation}" using en(2) by simp
  have d: "distinct (map fst kvs)" "k \<notin> fst ` set kvs" using Cons.prems(3) by (simp_all add: kv)
  note ih = Cons.IH [OF l h1 d(1)]
  from en(1) obtain data where
    data: "payload c token v = Some data" "only_named k (written k data v) (store w1 (Namespace c))"
    by blast
  with ih d(2) have kk: "only_named k (written k data v) (store w' (Namespace c))" by blast
  have c1: "allocated w' = allocated w" using ih en(3) by simp
  have c2: "dom (heap w' a) \<subseteq> {vaultAnnotation}" using ih by simp
  have c3: "heap w' a = [vaultAnnotation \<mapsto> snd (last (kv # kvs))]"
  proof (cases "kvs = []")
    case True
    with l en(2) show ?thesis by (simp add: kv)
  next
    case False
    with ih have "heap w' a = [vaultAnnotation \<mapsto> snd (last kvs)]" by blast
    moreover have "last (kv # kvs) = last kvs" using False by simp
    ultimately show ?thesis by (simp only:)
  qed
  have c4: "\<forall>(k, v) \<in> set (kv # kvs). \<exists>data. payload c token v = Some data \<and>
         only_named k (written k data v) (store w' (Namespace c))"
    using ih data(1) kk by (auto simp: kv)
  have c5: "\<forall>k' obj. k' \<notin> fst ` set (kv # kvs) \<and> only_named k' obj (store w (Namespace c)) \<longrightarrow>
         only_named k' obj (store w' (Namespace c))"
  proof (intro allI impI)
    fix k' obj assume b: "k' \<notin> fst ` set (kv # kvs) \<and> only_named k' obj (store w (Namespace c))"
    then have "k' \<noteq> k" "k' \<notin> fst ` set kvs" by (simp_all add: kv)
    with en(4) b have "only_named k' obj (store w1 (Namespace c))" by blast
    with ih \<open>k' \<notin> fst ` set kvs\<close> show "only_named k' obj (store w' (Namespace c))" by blast
  qed
  from c1 c2 c3 c4 c5 show ?case by blast
qed

lemma cleanup_frame:
  assumes "cleanup c w = (out, w')"
  shows "heap w' = heap w" "allocated w' = allocated w"
proof -
  have "heap w' = heap w \<and> allocated w' = allocated w"
  proof (cases "\<exists>f fs. faults w = Some f # fs")
    case True
    then obtain f fs where "faults w = Some f # fs" by blast
    from cleanup_list_fails [OF this, of c] assms show ?thesis by auto
  next
    case False
    note lo = cleanup_list_ok [OF False]
    from lo(1) [of c] assms have "w' = delete_loop c (store w (Namespace c)) (snd (take_fault w))"
      by simp
    with delete_loop_frame [of c "store w (Namespace c)" "snd (take_fault w)"] lo(4,5)
    show ?thesis by simp
  qed
  then show "heap w' = heap w" "allocated w' = allocated w" by simp_all
qed

lemma cleanup_keeps_desired:
  assumes cl: "cleanup c w = (out, w')" and on: "only_named k obj (store w (Namespace c))"
    and k: "k \<in> desired c"
  shows "only_named k obj (store w' (Namespace c))"
proof (cases "\<exists>f fs. faults w = Some f # fs")
  case True
  then obtain f fs where "faults w = Some f # fs" by blast
  from cleanup_list_fails [OF this, of c] cl have "store w' = store w" by auto
  with on show ?thesis by simp
next
  case False
  note lo = cleanup_list_ok [OF False]
  let ?items = "store w (Namespace c)"
  from lo(1) [of c] cl have w': "w' = delete_loop c ?items (snd (take_fault w))" by simp
  from delete_loop_keeps [of c ?items "snd (take_fault w)"] lo(2) w'
  have sub: "set (store w' (Namespace c)) \<subseteq> set ?items"
    and keep: "\<forall>t \<in> set ?items. Name t \<notin> Name ` {s \<in> set ?items. obsolete c s} \<longrightarrow>
      t \<in> set (store w' (Namespace c))"
    by simp_all
  from on obtain t where t: "t \<in> set ?items" "Name t = k"
    by (auto simp: only_named_def lookup_None_iff)
  have "Name t \<notin> Name ` {s \<in> set ?items. obsolete c s}"
  proof
    assume "Name t \<in> Name ` {s \<in> set ?items. obsolete c s}"
    then obtain s where "obsolete c s" "Name s = Name t" by auto
    with t(2) k show False by (simp add: obsolete_def)
  qed
  with keep t(1) have "t \<in> set (store w' (Namespace c))" by blast
  with t(2) have "k \<in> Name ` set (store w' (Namespace c))" by blast
  then have "lookup (store w' (Namespace c)) k \<noteq> None" by (simp only: lookup_None_iff not_not)
  moreover have "\<forall>t \<in> set (store w' (Namespace c)). Name t = k \<longrightarrow> t = obj"
    using on sub by (auto simp: only_named_def)
  ultimately show ?thesis by (simp only: only_named_def simp_thms)
qed

lemma make_map_fresh:
  assumes "make_map w = (a, w0)"
  shows "a = allocated w" "heap w0 a = Map.empty" "allocated w0 = Suc (allocated w)"
    "store w0 = store w" "logs w0 = logs w" "faults w0 = faults w"
  using assms by (auto simp: make_map_def)

lemma synchronize_written:
  assumes rng: "range_of (Secrets c) kvs" and run: "synchronize c kvs token w = (out, w')"
    and out: "out = Returned None \<or> out = Exited n"
  shows "allocated w' = Suc (allocated w)"
    and "kvs \<noteq> [] \<longrightarrow> heap w' (allocated w) = [vaultAnnotation \<mapsto> snd (last kvs)]"
    and "\<forall>(k, v) \<in> set kvs. \<exists>data. payload c token v = Some data \<and>
           only_named k (written k data v) (store w' (Namespace c))"
proof -
  from run out obtain a w0 w1 where mk: "make_map w = (a, w0)"
    and loop: "sync_loop c token a kvs w0 = (None, w1)" and cl: "cleanup c w1 = (out, w')"
    by (rule synchronize_completed)
  note mf = make_map_fresh [OF mk]
  have h0: "dom (heap w0 a) \<subseteq> {vaultAnnotation}" using mf(2) by simp
  note lw = sync_loop_written [OF loop h0 range_of_distinct [OF rng]]
  note cf = cleanup_frame [OF cl]
  show "allocated w' = Suc (allocated w)" using lw cf mf by simp
  show "kvs \<noteq> [] \<longrightarrow> heap w' (allocated w) = [vaultAnnotation \<mapsto> snd (last kvs)]"
    using lw cf mf(1) by simp
  show "\<forall>(k, v) \<in> set kvs. \<exists>data. payload c token v = Some data \<and>
           only_named k (written k data v) (store w' (Namespace c))"
  proof (intro ballI, clarify)
    fix k v assume kv: "(k, v) \<in> set kvs"
    with lw obtain data where d: "payload c token v = Some data"
      "only_named k (written k data v) (store w1 (Namespace c))" by blast
    from kv have "k \<in> desired c" using range_of_keys [OF rng] by force
    from cleanup_keeps_desired [OF cl d(2) this] d(1)
    show "\<exists>data. payload c token v = Some data \<and>
           only_named k (written k data v) (store w' (Namespace c))" by blast
  qed
qed

lemma sync_entry_cases:
  assumes rd: "vaultClient c token v = Inr s" and cv: "convert_data s = Some data"
    and g: "k8s_Get (Namespace c) k (map_assign a vaultAnnotation v (println (LogRead v) w)) = ((r, err), w3)"
    and e: "sync_entry c token a (k, v) w = (res, w')"
  shows "(IsNotFound err \<and> res = None \<longrightarrow>
            store w' = (store w)(Namespace c := store w (Namespace c) @
               [\<lparr>Name = k, Data = data, Annotations = (heap w a)(vaultAnnotation \<mapsto> v)\<rparr>])
            \<and> logs w' = logs w @ [LogRead v, LogCreate k v])
       \<and> (\<not> IsNotFound err \<and> res = None \<longrightarrow>
            store w' = (store w)(Namespace c := map (\<lambda>t. if Name t = k
               then \<lparr>Name = k, Data = data, Annotations = (heap w a)(vaultAnnotation \<mapsto> v)\<rparr> else t)
               (store w (Namespace c)))
            \<and> lookup (store w' (Namespace c)) k =
                 Some \<lparr>Name = k, Data = data, Annotations = (heap w a)(vaultAnnotation \<mapsto> v)\<rparr>
            \<and> logs w' = logs w @ [LogRead v, LogUpdate k v])
       \<and> (res \<noteq> None \<longrightarrow>
            (\<exists>st. res = Some (Returned (Some (Status st)))) \<and> store w' = store w
            \<and> logs w' = logs w @ [LogRead v, if IsNotFound err then LogCreate k v else LogUpdate k v]
            \<and> sync_loop c token a ((k, v) # rest) w = (res, w'))"
proof -
  let ?ns = "Namespace c"
  let ?obj = "\<lparr>Name = k, Data = data, Annotations = (heap w a)(vaultAnnotation \<mapsto> v)\<rparr>"
  have f3: "store w3 = store w" "logs w3 = logs w @ [LogRead v]"
    "heap w3 = (heap w)(a := (heap w a)(vaultAnnotation \<mapsto> v))"
    using k8s_Get_frame [OF g] by simp_all
  have m: "marshal w3 \<lparr>Name = k, Data = data, Annotations = a\<rparr> = ?obj"
    by (simp add: marshal_def f3)
  have nm: "Name ?obj = k" by simp
  show ?thesis
  proof (cases "IsNotFound err")
    case True
    obtain r' w4 where cr: "k8s_Create ?ns ?obj (println (LogCreate k v) w3) = (r', w4)"
      by (cases "k8s_Create ?ns ?obj (println (LogCreate k v) w3)")
    show ?thesis
    proof (cases r')
      case None
      with e rd cv g True m cr have "res = None" "w' = w4"
        by (simp_all add: sync_entry_def Let_def)
      with k8s_Create_ok [of ?ns ?obj "println (LogCreate k v) w3" w4] cr None f3 True
      show ?thesis by simp
    next
      case (Some e')
      with e rd cv g True m cr have res: "res = Some (Returned (Some e'))" "w' = w4"
        by (simp_all add: sync_entry_def Let_def)
      from k8s_Create_err [of ?ns ?obj "println (LogCreate k v) w3" e' w4] cr Some
      have "store w4 = store w3" "logs w4 = logs w3 @ [LogCreate k v]" "\<exists>st. e' = Status st"
        by simp_all
      with res f3 True e show ?thesis by auto
    qed
  next
    case False
    obtain r' w4 where up: "k8s_Update ?ns ?obj (println (LogUpdate k v) w3) = (r', w4)"
      by (cases "k8s_Update ?ns ?obj (println (LogUpdate k v) w3)")
    show ?thesis
    proof (cases r')
      case None
      with e rd cv g False m up have res: "res = None" "w' = w4"
        by (simp_all add: sync_entry_def Let_def)
      from k8s_Update_ok [of ?ns ?obj "println (LogUpdate k v) w3" w4] up None f3
      have st: "store w4 = (store w)(?ns := map (\<lambda>t. if Name t = k then ?obj else t) (store w ?ns))"
        and lg: "logs w4 = logs w @ [LogRead v, LogUpdate k v]"
        and ex: "lookup (store w ?ns) k \<noteq> None"
        by simp_all
      from only_named_replace [OF ex nm]
      have "lookup (map (\<lambda>t. if Name t = k then ?obj else t) (store w ?ns)) k = Some ?obj"
        by (rule only_named_lookup)
      with st have "lookup (store w4 ?ns) k = Some ?obj" by simp
      with res st lg False show ?thesis by simp
    next
      case (Some e')
      with e rd cv g False m up have res: "res = Some (Returned (Some e'))" "w' = w4"
        by (simp_all add: sync_entry_def Let_def)
      from k8s_Update_err [of ?ns ?obj "println (LogUpdate k v) w3" e' w4] up Some
      have "store w4 = store w3" "logs w4 = logs w3 @ [LogUpdate k v]" "\<exists>st. e' = Status st"
        by simp_all
      with res f3 False e show ?thesis by auto
    qed
  qed
qed


text \<open>
  C7. Create or update, for an entry \<open>(k, v)\<close> whose payload has been read and converted.
  The secret that is sent has the name \<open>k\<close>, the converted data and the contents of the
  annotation map. When the query \<^verbatim>\<open>Get\<close> reports not-found, \<^verbatim>\<open>Create\<close> is called and, when
  it succeeds, the secret is added to the namespace. For every other outcome of the query
  (found, or any other error) \<^verbatim>\<open>Update\<close> is called and, when it succeeds, the secret
  stored under \<open>k\<close> is exactly the one sent: nothing of the data and the annotations of
  the old secret is kept. When the call fails, the store is unchanged and the entry ends
  the loop with the error of the API server: in a run that has applied the entries \<open>pre\<close>
  before, \<^verbatim>\<open>synchronize\<close> returns that error, and \<^verbatim>\<open>main\<close> logs it as fatal and exits
  with 1.
\<close>

theorem create_or_update:
  assumes rd: "vaultClient c token v = Inr s" and cv: "convert_data s = Some data"
    and g: "k8s_Get (Namespace c) k (map_assign a vaultAnnotation v (println (LogRead v) w)) = ((r, err), w3)"
    and e: "sync_entry c token a (k, v) w = (res, w')"
  shows "(IsNotFound err \<and> res = None \<longrightarrow>
            store w' = (store w)(Namespace c := store w (Namespace c) @
               [\<lparr>Name = k, Data = data, Annotations = (heap w a)(vaultAnnotation \<mapsto> v)\<rparr>])
            \<and> logs w' = logs w @ [LogRead v, LogCreate k v])
       \<and> (\<not> IsNotFound err \<and> res = None \<longrightarrow>
            store w' = (store w)(Namespace c := map (\<lambda>t. if Name t = k
               then \<lparr>Name = k, Data = data, Annotations = (heap w a)(vaultAnnotation \<mapsto> v)\<rparr> else t)
               (store w (Namespace c)))
            \<and> lookup (store w' (Namespace c)) k =
                 Some \<lparr>Name = k, Data = data, Annotations = (heap w a)(vaultAnnotation \<mapsto> v)\<rparr>
            \<and> logs w' = logs w @ [LogRead v, LogUpdate k v])
       \<and> (res \<noteq> None \<longrightarrow>
            (\<exists>st. res = Some (Returned (Some (Status st)))) \<and> store w' = store w
            \<and> logs w' = logs w @ [LogRead v, if IsNotFound err then LogCreate k v else LogUpdate k v]
            \<and> sync_loop c token a ((k, v) # rest) w = (res, w'))
       \<and> (res \<noteq> None \<and> make_map w0 = (a, wa) \<and> sync_loop c token a pre wa = (None, w) \<longrightarrow>
            (\<exists>st. res = Some (Returned (Some (Status st)))
               \<and> synchronize c (pre @ (k, v) # post) token w0 = (Returned (Some (Status st)), w')
               \<and> (newFromEnvironment env = Inr c \<and> loadToken env c = Inr token \<longrightarrow>
                    main env (pre @ (k, v) # post) w0 =
                      (1, println (LogFatal (Wrap (Status st) ''failed to synchronize secrets'')) w'))))"
proof -
  note sc = sync_entry_cases [OF rd cv g e]
  have "res \<noteq> None \<and> make_map w0 = (a, wa) \<and> sync_loop c token a pre wa = (None, w) \<longrightarrow>
            (\<exists>st. res = Some (Returned (Some (Status st)))
               \<and> synchronize c (pre @ (k, v) # post) token w0 = (Returned (Some (Status st)), w')
               \<and> (newFromEnvironment env = Inr c \<and> loadToken env c = Inr token \<longrightarrow>
                    main env (pre @ (k, v) # post) w0 =
                      (1, println (LogFatal (Wrap (Status st) ''failed to synchronize secrets'')) w')))"
  proof (intro impI, elim conjE)
    assume rn: "res \<noteq> None" and mk: "make_map w0 = (a, wa)"
      and pre: "sync_loop c token a pre wa = (None, w)"
    from sc [of post] rn obtain st where st: "res = Some (Returned (Some (Status st)))"
      and l: "sync_loop c token a ((k, v) # post) w = (res, w')" by blast
    have "sync_loop c token a (pre @ (k, v) # post) wa = (Some (Returned (Some (Status st))), w')"
      using pre l st by (simp add: sync_loop_append)
    with mk have sy: "synchronize c (pre @ (k, v) # post) token w0 = (Returned (Some (Status st)), w')"
      by (simp add: synchronize_def)
    have "newFromEnvironment env = Inr c \<and> loadToken env c = Inr token \<longrightarrow>
                    main env (pre @ (k, v) # post) w0 =
                      (1, println (LogFatal (Wrap (Status st) ''failed to synchronize secrets'')) w')"
    proof (intro impI, elim conjE)
      assume "newFromEnvironment env = Inr c" "loadToken env c = Inr token"
      from main_synchronize [OF this sy]
      show "main env (pre @ (k, v) # post) w0 =
                      (1, println (LogFatal (Wrap (Status st) ''failed to synchronize secrets'')) w')"
        by simp
    qed
    with st sy show "\<exists>st. res = Some (Returned (Some (Status st)))
               \<and> synchronize c (pre @ (k, v) # post) token w0 = (Returned (Some (Status st)), w')
               \<and> (newFromEnvironment env = Inr c \<and> loadToken env c = Inr token \<longrightarrow>
                    main env (pre @ (k, v) # post) w0 =
                      (1, println (LogFatal (Wrap (Status st) ''failed to synchronize secrets'')) w'))"
      by blast
  qed
  with sc [of rest] show ?thesis by blast
qed

theorem create_or_update_witness:
  "vaultClient (ex_config [(''a'', ''kv/a'')]) ''t'' ''kv/a'' = Inr ex_payload
   \<and> convert_data ex_payload = Some [''user'' \<mapsto> ''admin'']
   \<and> \<not> IsNotFound (snd (fst (k8s_Get (Namespace (ex_config [(''a'', ''kv/a'')])) ''a''
          (map_assign 0 vaultAnnotation ''kv/a'' (println (LogRead ''kv/a'') (ex_world [ex_old] []))))))
   \<and> fst (sync_entry (ex_config [(''a'', ''kv/a'')]) ''t'' 0 (''a'', ''kv/a'') (ex_world [ex_old] [])) = None
   \<and> lookup (store (snd (sync_entry (ex_config [(''a'', ''kv/a'')]) ''t'' 0 (''a'', ''kv/a'') (ex_world [ex_old] [])))
        ''default'') ''a'' =
       Some \<lparr>Name = ''a'', Data = [''user'' \<mapsto> ''admin''], Annotations = [vaultAnnotation \<mapsto> ''kv/a'']\<rparr>
   \<and> IsNotFound (snd (fst (k8s_Get (Namespace (ex_config [(''a'', ''kv/a'')])) ''a''
          (map_assign 0 vaultAnnotation ''kv/a'' (println (LogRead ''kv/a'') (ex_world [] []))))))
   \<and> fst (sync_entry (ex_config [(''a'', ''kv/a'')]) ''t'' 0 (''a'', ''kv/a'') (ex_world [] [])) = None
   \<and> store (snd (sync_entry (ex_config [(''a'', ''kv/a'')]) ''t'' 0 (''a'', ''kv/a'') (ex_world [] []))) ''default'' =
       [\<lparr>Name = ''a'', Data = [''user'' \<mapsto> ''admin''], Annotations = [vaultAnnotation \<mapsto> ''kv/a'']\<rparr>]
   \<and> fst (sync_entry (ex_config [(''a'', ''kv/a'')]) ''t'' 0 (''a'', ''kv/a'')
          (snd (make_map (ex_world [] [None, Some Forbidden])))) =
       Some (Returned (Some (Status (Failure Forbidden))))
   \<and> make_map (ex_world [] [None, Some Forbidden]) = (0, snd (make_map (ex_world [] [None, Some Forbidden])))
   \<and> sync_loop (ex_config [(''a'', ''kv/a'')]) ''t'' 0 [] (snd (make_map (ex_world [] [None, Some Forbidden]))) =
       (None, snd (make_map (ex_world [] [None, Some Forbidden])))
   \<and> newFromEnvironment (ex_env ''kv/a:a'' (Some ''t'')) = Inr (ex_config [(''a'', ''kv/a'')])
   \<and> loadToken (ex_env ''kv/a:a'' (Some ''t'')) (ex_config [(''a'', ''kv/a'')]) = Inr ''t''
   \<and> fst (synchronize (ex_config [(''a'', ''kv/a'')]) [(''a'', ''kv/a'')] ''t'' (ex_world [] [None, Some Forbidden])) =
       Returned (Some (Status (Failure Forbidden)))
   \<and> fst (main (ex_env ''kv/a:a'' (Some ''t'')) [(''a'', ''kv/a'')] (ex_world [] [None, Some Forbidden])) = 1
   \<and> last (logs (snd (main (ex_env ''kv/a:a'' (Some ''t'')) [(''a'', ''kv/a'')] (ex_world [] [None, Some Forbidden])))) =
       LogFatal (Wrap (Status (Failure Forbidden)) ''failed to synchronize secrets'')"
proof -
  let ?c = "ex_config [(''a'', ''kv/a'')]"
  let ?env = "ex_env ''kv/a:a'' (Some ''t'')"
  let ?w = "ex_world [ex_old] []"
  let ?v = "ex_world [] []"
  let ?wf = "ex_world [] [None, Some Forbidden]"
  let ?wm = "snd (make_map ?wf)"
  let ?G = "\<lambda>w. k8s_Get (Namespace ?c) ''a'' (map_assign 0 vaultAnnotation ''kv/a'' (println (LogRead ''kv/a'') w))"
  let ?E = "\<lambda>w. sync_entry ?c ''t'' 0 (''a'', ''kv/a'') w"
  have rd: "vaultClient ?c ''t'' ''kv/a'' = Inr ex_payload" by (simp add: ex_defs)
  have cv: "convert_data ex_payload = Some [''user'' \<mapsto> ''admin'']"
    by (simp add: ex_payload_def convert_data_def)
  have g: "?G ?w = ((fst (fst (?G ?w)), snd (fst (?G ?w))), snd (?G ?w))"
    "?G ?v = ((fst (fst (?G ?v)), snd (fst (?G ?v))), snd (?G ?v))"
    "?G ?wm = ((fst (fst (?G ?wm)), snd (fst (?G ?wm))), snd (?G ?wm))" by simp_all
  have e: "?E ?w = (fst (?E ?w), snd (?E ?w))" "?E ?v = (fst (?E ?v), snd (?E ?v))"
    "?E ?wm = (fst (?E ?wm), snd (?E ?wm))"
    by simp_all
  have n: "\<not> IsNotFound (snd (fst (?G ?w)))" "IsNotFound (snd (fst (?G ?v)))"
    by (simp_all add: ex_defs ex_old_def run_defs)
  have r: "fst (?E ?w) = None" "fst (?E ?v) = None"
    "fst (?E ?wm) = Some (Returned (Some (Status (Failure Forbidden))))"
    by (simp_all add: ex_defs ex_old_def run_defs)
  have h: "heap ?w 0 = Map.empty" "heap ?v 0 = Map.empty" "Namespace ?c = ''default''"
    "store ?v ''default'' = []"
    by (simp_all add: ex_defs)
  from create_or_update [OF rd cv g(1) e(1)] n(1) r(1)
  have "lookup (store (snd (?E ?w)) (Namespace ?c)) ''a'' =
       Some \<lparr>Name = ''a'', Data = [''user'' \<mapsto> ''admin''],
             Annotations = (heap ?w 0)(vaultAnnotation \<mapsto> ''kv/a'')\<rparr>"
    by blast
  then have a: "lookup (store (snd (?E ?w)) ''default'') ''a'' =
       Some \<lparr>Name = ''a'', Data = [''user'' \<mapsto> ''admin''], Annotations = [vaultAnnotation \<mapsto> ''kv/a'']\<rparr>"
    by (simp only: h)
  from create_or_update [OF rd cv g(2) e(2)] n(2) r(2)
  have "store (snd (?E ?v)) =
       (store ?v)(Namespace ?c := store ?v (Namespace ?c) @ [\<lparr>Name = ''a'', Data = [''user'' \<mapsto> ''admin''],
             Annotations = (heap ?v 0)(vaultAnnotation \<mapsto> ''kv/a'')\<rparr>])"
    by blast
  then have b: "store (snd (?E ?v)) ''default'' =
       [\<lparr>Name = ''a'', Data = [''user'' \<mapsto> ''admin''], Annotations = [vaultAnnotation \<mapsto> ''kv/a'']\<rparr>]"
    by (simp only: h fun_upd_same append_Nil)
  have mk: "make_map ?wf = (0, ?wm)" by (simp add: make_map_def ex_world_def)
  have pre: "sync_loop ?c ''t'' 0 [] ?wm = (None, ?wm)" by simp
  have h1: "newFromEnvironment ?env = Inr ?c"
    by (simp add: newFromEnvironment_def ex_env_def ex_config_def Let_def trim_ascii_def is_space_def)
  have h2: "loadToken ?env ?c = Inr ''t''" by (simp add: loadToken_def ex_env_def ex_config_def)
  have rn: "fst (?E ?wm) \<noteq> None" using r(3) by simp
  from create_or_update [OF rd cv g(3) e(3), where ?w0.0 = ?wf and wa = ?wm and pre = "[]"
      and post = "[]" and env = ?env] rn mk pre h1 h2
  obtain st where st: "fst (?E ?wm) = Some (Returned (Some (Status st)))"
    "synchronize ?c ([] @ (''a'', ''kv/a'') # []) ''t'' ?wf = (Returned (Some (Status st)), snd (?E ?wm))"
    "main ?env ([] @ (''a'', ''kv/a'') # []) ?wf =
       (1, println (LogFatal (Wrap (Status st) ''failed to synchronize secrets'')) (snd (?E ?wm)))"
    by blast
  from st(1) r(3) have "st = Failure Forbidden" by simp
  with st(2,3) have m: "fst (synchronize ?c [(''a'', ''kv/a'')] ''t'' ?wf) = Returned (Some (Status (Failure Forbidden)))"
    "fst (main ?env [(''a'', ''kv/a'')] ?wf) = 1"
    "last (logs (snd (main ?env [(''a'', ''kv/a'')] ?wf))) =
       LogFatal (Wrap (Status (Failure Forbidden)) ''failed to synchronize secrets'')"
    by simp_all
  from n have n': "\<not> IsNotFound (snd (fst (k8s_Get (Namespace ?c) ''a''
          (map_assign 0 vaultAnnotation ''kv/a'' (println (LogRead ''kv/a'') ?w)))))"
    "IsNotFound (snd (fst (k8s_Get (Namespace ?c) ''a''
          (map_assign 0 vaultAnnotation ''kv/a'' (println (LogRead ''kv/a'') ?v)))))"
    by simp_all
  from rd cv n' r a b mk pre h1 h2 m show ?thesis by blast
qed

lemma sync_loop_any:
  "sync_loop c token a kvs w = (res, w') \<Longrightarrow> dom (heap w a) \<subseteq> {vaultAnnotation} \<Longrightarrow>
     allocated w' = allocated w \<and>
     (\<forall>k' obj. k' \<notin> fst ` set kvs \<and> only_named k' obj (store w (Namespace c)) \<longrightarrow>
         only_named k' obj (store w' (Namespace c)))"
proof (induction kvs arbitrary: w)
  case Nil
  then show ?case by simp
next
  case (Cons kv kvs)
  obtain k v where kv: "kv = (k, v)" by (cases kv)
  obtain r1 w1 where e: "sync_entry c token a (k, v) w = (r1, w1)"
    by (cases "sync_entry c token a (k, v) w")
  show ?case
  proof (cases r1)
    case (Some out)
    with Cons.prems(1) e have "w' = w1" by (simp add: kv)
    with sync_entry_abort [of c token a k v w out w1] e Some show ?thesis by simp
  next
    case None
    with Cons.prems(1) e have l: "sync_loop c token a kvs w1 = (res, w')" by (simp add: kv)
    from e None have e': "sync_entry c token a (k, v) w = (None, w1)" by simp
    note en = sync_entry_written [OF e' Cons.prems(2)]
    have h1: "dom (heap w1 a) \<subseteq> {vaultAnnotation}" using en(2) by simp
    note ih = Cons.IH [OF l h1]
    have "\<forall>k' obj. k' \<notin> fst ` set (kv # kvs) \<and> only_named k' obj (store w (Namespace c)) \<longrightarrow>
         only_named k' obj (store w' (Namespace c))"
    proof (intro allI impI)
      fix k' obj assume b: "k' \<notin> fst ` set (kv # kvs) \<and> only_named k' obj (store w (Namespace c))"
      then have "k' \<noteq> k" "k' \<notin> fst ` set kvs" by (simp_all add: kv)
      with en(4) b have "only_named k' obj (store w1 (Namespace c))" by blast
      with ih \<open>k' \<notin> fst ` set kvs\<close> show "only_named k' obj (store w' (Namespace c))" by blast
    qed
    moreover have "allocated w' = allocated w" using ih en(3) by simp
    ultimately show ?thesis by blast
  qed
qed

lemma synchronize_prefix_written:
  assumes rng: "range_of (Secrets c) kvs" and run: "synchronize c kvs token w = (out, w')"
  shows "allocated w' = Suc (allocated w)"
    and "\<forall>pre post. kvs = pre @ post \<and>
           fst (sync_loop c token (allocated w) pre (snd (make_map w))) = None \<longrightarrow>
           (\<forall>(k, v) \<in> set pre. \<exists>data. payload c token v = Some data \<and>
               only_named k (written k data v) (store w' (Namespace c)))"
proof -
  let ?ns = "Namespace c"
  obtain a w0 where mk: "make_map w = (a, w0)" by (cases "make_map w")
  note mf = make_map_fresh [OF mk]
  have w0: "snd (make_map w) = w0" using mk by simp
  have h0: "dom (heap w0 a) \<subseteq> {vaultAnnotation}" using mf(2) by simp
  obtain res w1 where l: "sync_loop c token a kvs w0 = (res, w1)"
    by (cases "sync_loop c token a kvs w0")
  have fin: "(\<exists>o1. res = Some o1 \<and> w' = w1) \<or> (res = None \<and> cleanup c w1 = (out, w'))"
    using run mk l by (cases res) (simp_all add: synchronize_def)
  have al1: "allocated w1 = Suc (allocated w)" using sync_loop_any [OF l h0] mf(3) by simp
  from fin show "allocated w' = Suc (allocated w)"
  proof
    assume "\<exists>o1. res = Some o1 \<and> w' = w1"
    with al1 show ?thesis by auto
  next
    assume "res = None \<and> cleanup c w1 = (out, w')"
    then have "cleanup c w1 = (out, w')" by simp
    from cleanup_frame(2) [OF this] al1 show ?thesis by simp
  qed
  show "\<forall>pre post. kvs = pre @ post \<and>
           fst (sync_loop c token (allocated w) pre (snd (make_map w))) = None \<longrightarrow>
           (\<forall>(k, v) \<in> set pre. \<exists>data. payload c token v = Some data \<and>
               only_named k (written k data v) (store w' ?ns))"
  proof (intro allI impI ballI, clarify)
    fix pre post k v
    assume f: "fst (sync_loop c token (allocated w) pre (snd (make_map w))) = None"
      and kv: "(k, v) \<in> set pre" and "kvs = pre @ post"
    then have kvs: "kvs = pre @ post" by simp
    from f mf(1) w0 obtain wp where lp: "sync_loop c token a pre w0 = (None, wp)"
      by (cases "sync_loop c token a pre w0") simp
    have d: "distinct (map fst pre)" "fst ` set pre \<inter> fst ` set post = {}"
      using range_of_distinct [OF rng] kvs by simp_all
    note lw = sync_loop_written [OF lp h0 d(1)]
    from lw kv obtain data where data: "payload c token v = Some data"
      "only_named k (written k data v) (store wp ?ns)" by blast
    have hp: "dom (heap wp a) \<subseteq> {vaultAnnotation}" using lw by simp
    have lq: "sync_loop c token a post wp = (res, w1)"
      using l lp kvs by (simp add: sync_loop_append)
    from kv d(2) have "k \<notin> fst ` set post" by force
    with sync_loop_any [OF lq hp] data(2)
    have on1: "only_named k (written k data v) (store w1 ?ns)" by blast
    from fin have "only_named k (written k data v) (store w' ?ns)"
    proof
      assume "\<exists>o1. res = Some o1 \<and> w' = w1"
      with on1 show ?thesis by auto
    next
      assume "res = None \<and> cleanup c w1 = (out, w')"
      then have cl: "cleanup c w1 = (out, w')" by simp
      from kv kvs have "k \<in> desired c" using range_of_keys [OF rng] by force
      from cleanup_keeps_desired [OF cl on1 this] show ?thesis .
    qed
    with data(1) show "\<exists>data. payload c token v = Some data \<and>
               only_named k (written k data v) (store w' ?ns)" by blast
  qed
qed

text \<open>
  C9, as the code has it. The annotation map is made once, before the loop, and every
  iteration overwrites its one entry: every run allocates one map, whatever the number of
  entries and however the run ends, and after a loop that went through that map holds the
  source of the last entry. Each call sends the contents the map has at that moment. So
  for every entry \<open>(k, v)\<close> that the loop has gone through (the entries of a prefix \<open>pre\<close>
  of the range, also in a run that stops at a later entry) the secret stored under \<open>k\<close>
  at the end has exactly the annotation \<^verbatim>\<open>vault-secret\<close> with the value \<open>v\<close>.
\<close>

theorem annotations_of_written:
  assumes rng: "range_of (Secrets c) kvs" and run: "synchronize c kvs token w = (out, w')"
  shows "allocated w' = Suc (allocated w)
     \<and> (\<forall>pre post. kvs = pre @ post \<and>
           fst (sync_loop c token (allocated w) pre (snd (make_map w))) = None \<longrightarrow>
           (\<forall>(k, v) \<in> set pre. \<exists>obj. lookup (store w' (Namespace c)) k = Some obj \<and> Name obj = k \<and>
               Annotations obj = [vaultAnnotation \<mapsto> v]))
     \<and> (out = Returned None \<or> out = Exited 0 \<longrightarrow>
           (kvs \<noteq> [] \<longrightarrow> heap w' (allocated w) = [vaultAnnotation \<mapsto> snd (last kvs)])
           \<and> (\<forall>(k, v) \<in> set kvs. \<exists>obj. lookup (store w' (Namespace c)) k = Some obj \<and> Name obj = k \<and>
                 Annotations obj = [vaultAnnotation \<mapsto> v]))"
proof -
  note sp = synchronize_prefix_written [OF rng run]
  have obj: "\<exists>obj. lookup (store w' (Namespace c)) k = Some obj \<and> Name obj = k \<and>
               Annotations obj = [vaultAnnotation \<mapsto> v]"
    if "only_named k (written k data v) (store w' (Namespace c))" for k v data
  proof -
    from that have "lookup (store w' (Namespace c)) k = Some (written k data v)"
      by (rule only_named_lookup)
    moreover have "Name (written k data v) = k"
      "Annotations (written k data v) = [vaultAnnotation \<mapsto> v]"
      by (simp_all add: written_def)
    ultimately show ?thesis by blast
  qed
  have p2: "\<forall>pre post. kvs = pre @ post \<and>
           fst (sync_loop c token (allocated w) pre (snd (make_map w))) = None \<longrightarrow>
           (\<forall>(k, v) \<in> set pre. \<exists>obj. lookup (store w' (Namespace c)) k = Some obj \<and> Name obj = k \<and>
               Annotations obj = [vaultAnnotation \<mapsto> v])"
  proof (intro allI impI ballI, clarify)
    fix pre post k v
    assume "kvs = pre @ post"
      "fst (sync_loop c token (allocated w) pre (snd (make_map w))) = None" "(k, v) \<in> set pre"
    with sp(2) obtain data where "only_named k (written k data v) (store w' (Namespace c))"
      by blast
    then show "\<exists>obj. lookup (store w' (Namespace c)) k = Some obj \<and> Name obj = k \<and>
               Annotations obj = [vaultAnnotation \<mapsto> v]" by (rule obj)
  qed
  have p3: "out = Returned None \<or> out = Exited 0 \<longrightarrow>
           (kvs \<noteq> [] \<longrightarrow> heap w' (allocated w) = [vaultAnnotation \<mapsto> snd (last kvs)])
           \<and> (\<forall>(k, v) \<in> set kvs. \<exists>obj. lookup (store w' (Namespace c)) k = Some obj \<and> Name obj = k \<and>
                 Annotations obj = [vaultAnnotation \<mapsto> v])"
  proof
    assume out: "out = Returned None \<or> out = Exited 0"
    note sw = synchronize_written [OF rng run out]
    have "\<forall>(k, v) \<in> set kvs. \<exists>obj. lookup (store w' (Namespace c)) k = Some obj \<and> Name obj = k \<and>
           Annotations obj = [vaultAnnotation \<mapsto> v]"
    proof (intro ballI, clarify)
      fix k v assume "(k, v) \<in> set kvs"
      with sw(3) obtain data where "only_named k (written k data v) (store w' (Namespace c))" by blast
      then show "\<exists>obj. lookup (store w' (Namespace c)) k = Some obj \<and> Name obj = k \<and>
           Annotations obj = [vaultAnnotation \<mapsto> v]" by (rule obj)
    qed
    with sw(2) show "(kvs \<noteq> [] \<longrightarrow> heap w' (allocated w) = [vaultAnnotation \<mapsto> snd (last kvs)])
           \<and> (\<forall>(k, v) \<in> set kvs. \<exists>obj. lookup (store w' (Namespace c)) k = Some obj \<and> Name obj = k \<and>
                 Annotations obj = [vaultAnnotation \<mapsto> v])" by blast
  qed
  from sp(1) p2 p3 show ?thesis by blast
qed

theorem annotations_of_written_witness:
  "range_of (Secrets (ex_config [(''a'', ''kv/a''), (''b'', ''kv/b'')])) [(''a'', ''kv/a''), (''b'', ''kv/b'')]
   \<and> fst (synchronize (ex_config [(''a'', ''kv/a''), (''b'', ''kv/b'')]) [(''a'', ''kv/a''), (''b'', ''kv/b'')]
        ''t'' (ex_world [] [])) = Returned None
   \<and> allocated (snd (synchronize (ex_config [(''a'', ''kv/a''), (''b'', ''kv/b'')])
        [(''a'', ''kv/a''), (''b'', ''kv/b'')] ''t'' (ex_world [] []))) = 1
   \<and> (\<exists>obj. lookup (store (snd (synchronize (ex_config [(''a'', ''kv/a''), (''b'', ''kv/b'')])
        [(''a'', ''kv/a''), (''b'', ''kv/b'')] ''t'' (ex_world [] []))) ''default'') ''a'' = Some obj
        \<and> Annotations obj = [vaultAnnotation \<mapsto> ''kv/a''])
   \<and> (\<exists>obj. lookup (store (snd (synchronize (ex_config [(''a'', ''kv/a''), (''b'', ''kv/b'')])
        [(''a'', ''kv/a''), (''b'', ''kv/b'')] ''t'' (ex_world [] []))) ''default'') ''b'' = Some obj
        \<and> Annotations obj = [vaultAnnotation \<mapsto> ''kv/b''])
   \<and> range_of (Secrets (ex_config [(''a'', ''kv/a''), (''b'', ''kv/bad'')])) [(''a'', ''kv/a''), (''b'', ''kv/bad'')]
   \<and> fst (synchronize (ex_config [(''a'', ''kv/a''), (''b'', ''kv/bad'')]) [(''a'', ''kv/a''), (''b'', ''kv/bad'')]
        ''t'' (ex_world [] [])) = Returned (Some (External ''permission denied''))
   \<and> fst (sync_loop (ex_config [(''a'', ''kv/a''), (''b'', ''kv/bad'')]) ''t'' (allocated (ex_world [] []))
        [(''a'', ''kv/a'')] (snd (make_map (ex_world [] [])))) = None
   \<and> allocated (snd (synchronize (ex_config [(''a'', ''kv/a''), (''b'', ''kv/bad'')])
        [(''a'', ''kv/a''), (''b'', ''kv/bad'')] ''t'' (ex_world [] []))) = 1
   \<and> (\<exists>obj. lookup (store (snd (synchronize (ex_config [(''a'', ''kv/a''), (''b'', ''kv/bad'')])
        [(''a'', ''kv/a''), (''b'', ''kv/bad'')] ''t'' (ex_world [] []))) ''default'') ''a'' = Some obj
        \<and> Annotations obj = [vaultAnnotation \<mapsto> ''kv/a''])"
proof -
  let ?c = "ex_config [(''a'', ''kv/a''), (''b'', ''kv/b'')]"
  let ?kvs = "[(''a'', ''kv/a''), (''b'', ''kv/b'')]"
  let ?d = "ex_config [(''a'', ''kv/a''), (''b'', ''kv/bad'')]"
  let ?lvs = "[(''a'', ''kv/a''), (''b'', ''kv/bad'')]"
  let ?w = "ex_world [] []"
  have h1: "range_of (Secrets ?c) ?kvs" "range_of (Secrets ?d) ?lvs"
    by (simp_all add: range_of_def ex_config_def)
  have f: "fst (synchronize ?c ?kvs ''t'' ?w) = Returned None"
    "fst (synchronize ?d ?lvs ''t'' ?w) = Returned (Some (External ''permission denied''))"
    by (simp_all add: ex_defs run_defs)
  have h2: "synchronize ?c ?kvs ''t'' ?w = (Returned None, snd (synchronize ?c ?kvs ''t'' ?w))"
    "synchronize ?d ?lvs ''t'' ?w =
       (Returned (Some (External ''permission denied'')), snd (synchronize ?d ?lvs ''t'' ?w))"
    using f by (metis prod.collapse)+
  have n: "Namespace ?c = ''default''" "Namespace ?d = ''default''" "allocated ?w = 0"
    by (simp_all add: ex_defs)
  have p: "fst (sync_loop ?d ''t'' (allocated ?w) [(''a'', ''kv/a'')] (snd (make_map ?w))) = None"
    by (simp add: ex_defs run_defs)
  note t = annotations_of_written [OF h1(1) h2(1)]
  from t n have al: "allocated (snd (synchronize ?c ?kvs ''t'' ?w)) = 1" by simp
  from t have q: "\<forall>(k, v) \<in> set ?kvs. \<exists>obj. lookup (store (snd (synchronize ?c ?kvs ''t'' ?w))
       (Namespace ?c)) k = Some obj \<and> Name obj = k \<and> Annotations obj = [vaultAnnotation \<mapsto> v]"
    by blast
  have "(''a'', ''kv/a'') \<in> set ?kvs" by simp
  with q have a: "\<exists>obj. lookup (store (snd (synchronize ?c ?kvs ''t'' ?w)) (Namespace ?c)) ''a'' = Some obj
      \<and> Annotations obj = [vaultAnnotation \<mapsto> ''kv/a'']" by blast
  have "(''b'', ''kv/b'') \<in> set ?kvs" by simp
  with q have b: "\<exists>obj. lookup (store (snd (synchronize ?c ?kvs ''t'' ?w)) (Namespace ?c)) ''b'' = Some obj
      \<and> Annotations obj = [vaultAnnotation \<mapsto> ''kv/b'']" by blast
  note u = annotations_of_written [OF h1(2) h2(2)]
  from u n have al2: "allocated (snd (synchronize ?d ?lvs ''t'' ?w)) = 1" by simp
  have sp: "?lvs = [(''a'', ''kv/a'')] @ [(''b'', ''kv/bad'')]" by simp
  from u have "?lvs = [(''a'', ''kv/a'')] @ [(''b'', ''kv/bad'')] \<and>
      fst (sync_loop ?d ''t'' (allocated ?w) [(''a'', ''kv/a'')] (snd (make_map ?w))) = None \<longrightarrow>
      (\<forall>(k, v) \<in> set [(''a'', ''kv/a'')]. \<exists>obj. lookup (store (snd (synchronize ?d ?lvs ''t'' ?w))
       (Namespace ?d)) k = Some obj \<and> Name obj = k \<and> Annotations obj = [vaultAnnotation \<mapsto> v])"
    by blast
  with sp p have "\<forall>(k, v) \<in> set [(''a'', ''kv/a'')]. \<exists>obj. lookup (store (snd (synchronize ?d ?lvs ''t'' ?w))
       (Namespace ?d)) k = Some obj \<and> Name obj = k \<and> Annotations obj = [vaultAnnotation \<mapsto> v]"
    by blast
  then have c: "\<exists>obj. lookup (store (snd (synchronize ?d ?lvs ''t'' ?w)) (Namespace ?d)) ''a'' = Some obj
      \<and> Annotations obj = [vaultAnnotation \<mapsto> ''kv/a'']" by auto
  from a b c have "(\<exists>obj. lookup (store (snd (synchronize ?c ?kvs ''t'' ?w)) ''default'') ''a'' = Some obj
      \<and> Annotations obj = [vaultAnnotation \<mapsto> ''kv/a''])
    \<and> (\<exists>obj. lookup (store (snd (synchronize ?c ?kvs ''t'' ?w)) ''default'') ''b'' = Some obj
      \<and> Annotations obj = [vaultAnnotation \<mapsto> ''kv/b''])
    \<and> (\<exists>obj. lookup (store (snd (synchronize ?d ?lvs ''t'' ?w)) ''default'') ''a'' = Some obj
      \<and> Annotations obj = [vaultAnnotation \<mapsto> ''kv/a''])"
    by (simp only: n)
  with h1 f al al2 p show ?thesis by blast
qed

text \<open>
  C9, as the specification words it (a map made afresh for every written secret, none
  reused or changed from one iteration to the next), does not hold: a run that writes the two secrets
  \<open>a\<close> and \<open>b\<close> into an empty namespace allocates one map, at address 0, which holds
  \<open>kv/a\<close> after the first iteration and \<open>kv/b\<close> after the second.
\<close>

theorem fresh_tag_set_counterexample:
  "allocated (ex_world [] []) = 0
   \<and> map Name (store (snd (synchronize (ex_config [(''a'', ''kv/a''), (''b'', ''kv/b'')])
        [(''a'', ''kv/a''), (''b'', ''kv/b'')] ''t'' (ex_world [] []))) ''default'') = [''a'', ''b'']
   \<and> allocated (snd (synchronize (ex_config [(''a'', ''kv/a''), (''b'', ''kv/b'')])
        [(''a'', ''kv/a''), (''b'', ''kv/b'')] ''t'' (ex_world [] []))) = 1
   \<and> heap (snd (sync_loop (ex_config [(''a'', ''kv/a''), (''b'', ''kv/b'')]) ''t'' 0
        [(''a'', ''kv/a'')] (snd (make_map (ex_world [] []))))) 0 vaultAnnotation = Some ''kv/a''
   \<and> heap (snd (sync_loop (ex_config [(''a'', ''kv/a''), (''b'', ''kv/b'')]) ''t'' 0
        [(''a'', ''kv/a''), (''b'', ''kv/b'')] (snd (make_map (ex_world [] []))))) 0 vaultAnnotation =
       Some ''kv/b''"
  by (simp add: ex_defs run_defs)

subsection \<open>A second run\<close>

lemma k8s_Update_no_faults:
  assumes "no_faults w" "lookup (store w ns) (Name s) \<noteq> None" "k8s_Update ns s w = (r, w')"
  shows "r = None" "no_faults w'"
  using assms no_faults_take [OF assms(1)]
  by (auto simp: k8s_Update_def split: prod.splits option.splits if_splits)

lemma sync_entry_again:
  assumes p: "payload c token v = Some data"
    and on: "only_named k (written k data v) (store w (Namespace c))"
    and h: "dom (heap w a) \<subseteq> {vaultAnnotation}"
    and e: "sync_entry c token a (k, v) w = (res, w')"
  shows "store w' = store w" and "allocated w' = allocated w"
    and "heap w' a = [vaultAnnotation \<mapsto> v]"
    and "logs w' = logs w @ [LogRead v, LogUpdate k v]"
    and "res = None \<or> (\<exists>st. res = Some (Returned (Some (Status st))))"
    and "no_faults w \<longrightarrow> res = None \<and> no_faults w'"
proof -
  let ?ns = "Namespace c"
  let ?w2 = "map_assign a vaultAnnotation v (println (LogRead v) w)"
  let ?obj = "written k data v"
  from p obtain s where rd: "vaultClient c token v = Inr s" and cv: "convert_data s = Some data"
    by (auto simp: payload_def split: sum.splits)
  obtain r err w3 where g: "k8s_Get ?ns k ?w2 = ((r, err), w3)"
    by (metis prod.collapse)
  have f3: "store w3 = store w" "logs w3 = logs w @ [LogRead v]"
    "heap w3 = (heap w)(a := (heap w a)(vaultAnnotation \<mapsto> v))" "allocated w3 = allocated w"
    using k8s_Get_frame [OF g] by simp_all
  have m0: "(heap w a)(vaultAnnotation \<mapsto> v) = [vaultAnnotation \<mapsto> v]" using h by (rule only_marker)
  have m: "marshal w3 \<lparr>Name = k, Data = data, Annotations = a\<rparr> = ?obj"
    by (simp add: marshal_def f3 m0 written_def)
  have nm: "Name ?obj = k" by (simp add: written_def)
  have ex: "lookup (store w ?ns) k \<noteq> None" using on by (simp add: only_named_def)
  have same: "map (\<lambda>t. if Name t = k then ?obj else t) (store w ?ns) = store w ?ns"
    using on by (intro replace_same) (simp add: only_named_def)
  have nf: "\<not> IsNotFound err"
    using k8s_Get_err_cases [OF g] ex by auto
  obtain r' w4 where up: "k8s_Update ?ns ?obj (println (LogUpdate k v) w3) = (r', w4)"
    by (cases "k8s_Update ?ns ?obj (println (LogUpdate k v) w3)")
  have res: "res = (case r' of None \<Rightarrow> None | Some e' \<Rightarrow> Some (Returned (Some e')))" "w' = w4"
    using e rd cv g nf m up by (simp_all add: sync_entry_def Let_def split: option.splits)
  have fr: "store w4 = store w \<and> logs w4 = logs w @ [LogRead v, LogUpdate k v] \<and>
      heap w4 = heap w3 \<and> allocated w4 = allocated w \<and> (\<forall>e'. r' = Some e' \<longrightarrow> (\<exists>st. e' = Status st))"
  proof (cases r')
    case None
    from k8s_Update_ok [of ?ns ?obj "println (LogUpdate k v) w3" w4] up None f3 nm same
    show ?thesis by simp
  next
    case (Some e')
    from k8s_Update_err [of ?ns ?obj "println (LogUpdate k v) w3" e' w4] up Some f3
    show ?thesis by simp
  qed
  show "store w' = store w" "allocated w' = allocated w" "logs w' = logs w @ [LogRead v, LogUpdate k v]"
    using fr res(2) by simp_all
  show "heap w' a = [vaultAnnotation \<mapsto> v]" using fr res(2) f3(3) m0 by simp
  show "res = None \<or> (\<exists>st. res = Some (Returned (Some (Status st))))"
    using fr res(1) by (cases r') auto
  show "no_faults w \<longrightarrow> res = None \<and> no_faults w'"
  proof
    assume n: "no_faults w"
    then have "no_faults ?w2" by simp
    from k8s_Get_no_faults(1) [OF this g] have n3: "no_faults (println (LogUpdate k v) w3)" by simp
    have "lookup (store (println (LogUpdate k v) w3) ?ns) (Name ?obj) \<noteq> None"
      using ex f3(1) nm by simp
    from k8s_Update_no_faults [OF n3 this up] res show "res = None \<and> no_faults w'" by simp
  qed
qed

lemma sync_loop_again:
  "\<forall>(k, v) \<in> set kvs. \<exists>data. payload c token v = Some data \<and>
       only_named k (written k data v) (store w (Namespace c)) \<Longrightarrow>
   dom (heap w a) \<subseteq> {vaultAnnotation} \<Longrightarrow> sync_loop c token a kvs w = (res, w') \<Longrightarrow>
     store w' = store w \<and> allocated w' = allocated w \<and>
     (\<exists>evs. logs w' = logs w @ evs \<and> (\<forall>e \<in> set evs. \<not> is_create e \<and> \<not> is_delete e)) \<and>
     (res = None \<or> (\<exists>st. res = Some (Returned (Some (Status st))))) \<and>
     (no_faults w \<longrightarrow> res = None \<and> no_faults w' \<and>
        logs w' = logs w @ concat (map (\<lambda>(k, v). [LogRead v, LogUpdate k v]) kvs))"
proof (induction kvs arbitrary: w)
  case Nil
  then show ?case by simp
next
  case (Cons kv kvs)
  obtain k v where kv: "kv = (k, v)" by (cases kv)
  from Cons.prems(1) obtain data where d: "payload c token v = Some data"
    "only_named k (written k data v) (store w (Namespace c))" by (auto simp: kv)
  obtain r1 w1 where e: "sync_entry c token a (k, v) w = (r1, w1)"
    by (cases "sync_entry c token a (k, v) w")
  note en = sync_entry_again [OF d Cons.prems(2) e]
  show ?case
  proof (cases r1)
    case (Some out)
    with Cons.prems(3) e have r: "res = r1" "w' = w1" by (simp_all add: kv)
    have "\<exists>evs. logs w1 = logs w @ evs \<and> (\<forall>e \<in> set evs. \<not> is_create e \<and> \<not> is_delete e)"
      using en(4) by (intro exI [of _ "[LogRead v, LogUpdate k v]"]) simp
    with r en Some show ?thesis by auto
  next
    case None
    with Cons.prems(3) e have l: "sync_loop c token a kvs w1 = (res, w')" by (simp add: kv)
    have i1: "\<forall>(k, v) \<in> set kvs. \<exists>data. payload c token v = Some data \<and>
       only_named k (written k data v) (store w1 (Namespace c))"
      using Cons.prems(1) en(1) by simp
    have h1: "dom (heap w1 a) \<subseteq> {vaultAnnotation}" using en(3) by simp
    note ih = Cons.IH [OF i1 h1 l]
    from ih obtain evs where evs: "logs w' = logs w1 @ evs"
      "\<forall>e \<in> set evs. \<not> is_create e \<and> \<not> is_delete e" by blast
    have c3: "\<exists>evs'. logs w' = logs w @ evs' \<and> (\<forall>e \<in> set evs'. \<not> is_create e \<and> \<not> is_delete e)"
      using evs en(4) by (intro exI [of _ "[LogRead v, LogUpdate k v] @ evs"]) simp
    have c5: "no_faults w \<longrightarrow> res = None \<and> no_faults w' \<and>
        logs w' = logs w @ concat (map (\<lambda>(k, v). [LogRead v, LogUpdate k v]) (kv # kvs))"
    proof
      assume "no_faults w"
      with en(6) have "no_faults w1" by simp
      with ih have "res = None" "no_faults w'"
        "logs w' = logs w1 @ concat (map (\<lambda>(k, v). [LogRead v, LogUpdate k v]) kvs)" by simp_all
      with en(4) show "res = None \<and> no_faults w' \<and>
        logs w' = logs w @ concat (map (\<lambda>(k, v). [LogRead v, LogUpdate k v]) (kv # kvs))"
        by (simp add: kv)
    qed
    have c1: "store w' = store w" "allocated w' = allocated w" using ih en(1,2) by simp_all
    have c4: "res = None \<or> (\<exists>st. res = Some (Returned (Some (Status st))))" using ih by blast
    from c1 c3 c4 c5 show ?thesis by blast
  qed
qed

lemma synchronize_again:
  assumes inv: "\<forall>(k, v) \<in> set kvs. \<exists>data. payload c token v = Some data \<and>
       only_named k (written k data v) (store w (Namespace c))"
    and conv: "managed_names (store w (Namespace c)) \<subseteq> desired c"
    and run: "synchronize c kvs token w = (out, w')"
  shows "store w' = store w"
    and "\<exists>evs. logs w' = logs w @ evs \<and> (\<forall>e \<in> set evs. \<not> is_create e \<and> \<not> is_delete e)"
    and "no_faults w \<longrightarrow> out = Returned None \<and>
           logs w' = logs w @ concat (map (\<lambda>(k, v). [LogRead v, LogUpdate k v]) kvs)"
proof -
  let ?ns = "Namespace c"
  obtain a w0 where mk: "make_map w = (a, w0)" by (cases "make_map w")
  note mf = make_map_fresh [OF mk]
  obtain res w1 where l: "sync_loop c token a kvs w0 = (res, w1)"
    by (cases "sync_loop c token a kvs w0")
  have i0: "\<forall>(k, v) \<in> set kvs. \<exists>data. payload c token v = Some data \<and>
       only_named k (written k data v) (store w0 ?ns)" using inv mf(4) by simp
  have h0: "dom (heap w0 a) \<subseteq> {vaultAnnotation}" using mf(2) by simp
  note la = sync_loop_again [OF i0 h0 l]
  from la obtain evs where evs: "logs w1 = logs w0 @ evs"
    "\<forall>e \<in> set evs. \<not> is_create e \<and> \<not> is_delete e" by blast
  have st1: "store w1 = store w" using la mf(4) by simp
  have nf0: "no_faults w0 = no_faults w" using mf(6) by (simp add: no_faults_def)
  have all: "store w' = store w \<and>
     (\<exists>evs. logs w' = logs w @ evs \<and> (\<forall>e \<in> set evs. \<not> is_create e \<and> \<not> is_delete e)) \<and>
     (no_faults w \<longrightarrow> out = Returned None \<and>
           logs w' = logs w @ concat (map (\<lambda>(k, v). [LogRead v, LogUpdate k v]) kvs))"
  proof (cases res)
    case (Some o1)
    with run mk l have r: "out = o1" "w' = w1" by (simp_all add: synchronize_def)
    have "\<not> no_faults w" using la Some nf0 by auto
    moreover have "\<exists>evs. logs w1 = logs w @ evs \<and> (\<forall>e \<in> set evs. \<not> is_create e \<and> \<not> is_delete e)"
      using evs mf(5) by auto
    ultimately show ?thesis using r st1 by simp
  next
    case None
    with run mk l have cl: "cleanup c w1 = (out, w')" by (simp add: synchronize_def)
    show ?thesis
    proof (cases "\<exists>f fs. faults w1 = Some f # fs")
      case True
      then obtain f fs where f: "faults w1 = Some f # fs" by blast
      from cleanup_list_fails [OF f, of c] cl
      have w': "store w' = store w1" "logs w' = logs w1 @ [LogCleanupFailed
           (Wrap (Status (Failure f)) ''cleanup of unused vault secrets failed'')]"
        by auto
      have "\<not> no_faults w1" using f by (auto simp: no_faults_def)
      then have "\<not> no_faults w" using la nf0 by auto
      moreover have "\<exists>evs'. logs w' = logs w @ evs' \<and> (\<forall>e \<in> set evs'. \<not> is_create e \<and> \<not> is_delete e)"
        using evs w'(2) mf(5)
        by (intro exI [of _ "evs @ [LogCleanupFailed
           (Wrap (Status (Failure f)) ''cleanup of unused vault secrets failed'')]"]) simp
      ultimately show ?thesis using w'(1) st1 by simp
    next
      case False
      note lo = cleanup_list_ok [OF False]
      have "\<forall>s \<in> set (store w1 ?ns). \<not> obsolete c s"
      proof
        fix s assume s: "s \<in> set (store w1 ?ns)"
        show "\<not> obsolete c s"
        proof
          assume o: "obsolete c s"
          with s have "Name s \<in> managed_names (store w1 ?ns)"
            unfolding mem_managed_names obsolete_def by blast
          with conv st1 have "Name s \<in> desired c" by auto
          with o show False by (simp add: obsolete_def)
        qed
      qed
      from delete_loop_nothing [OF this, of "snd (take_fault w1)"] lo(1) [of c] cl
      have w': "out = Returned None" "w' = snd (take_fault w1)" by simp_all
      have "store w' = store w" "logs w' = logs w1" using w'(2) lo(2,3) st1 by simp_all
      moreover have "\<exists>evs. logs w1 = logs w @ evs \<and> (\<forall>e \<in> set evs. \<not> is_create e \<and> \<not> is_delete e)"
        using evs mf(5) by auto
      moreover have "no_faults w \<longrightarrow> logs w1 = logs w @ concat (map (\<lambda>(k, v). [LogRead v, LogUpdate k v]) kvs)"
        using la nf0 mf(5) by simp
      ultimately show ?thesis using w'(1) by simp
    qed
  qed
  from all show "store w' = store w" by blast
  from all show "\<exists>evs. logs w' = logs w @ evs \<and> (\<forall>e \<in> set evs. \<not> is_create e \<and> \<not> is_delete e)"
    by blast
  from all show "no_faults w \<longrightarrow> out = Returned None \<and>
           logs w' = logs w @ concat (map (\<lambda>(k, v). [LogRead v, LogUpdate k v]) kvs)" by blast
qed

text \<open>
  C8, as the code has it. After a run that returned nil with no failed deletion, a second run
  with the same desired mapping (in any order of the range), the same token and the same
  Vault leaves the store as it is, whatever faults the API server has: it makes no call of
  \<^verbatim>\<open>Create\<close> and no call of \<^verbatim>\<open>Delete\<close>. When the API server has no fault, the second run
  returns nil and does, for every entry, one read of Vault and one \<^verbatim>\<open>Update\<close>.
\<close>

theorem idempotence:
  assumes rng1: "range_of (Secrets c) kvs1" and rng2: "range_of (Secrets c) kvs2"
    and run1: "synchronize c kvs1 token w = (Returned None, w1)"
    and ok1: "\<forall>e \<in> set (logs w1). \<not> is_delete_failed e"
    and run2: "synchronize c kvs2 token w1 = (out2, w2)"
  shows "store w2 = store w1
     \<and> (\<exists>evs. logs w2 = logs w1 @ evs \<and> (\<forall>e \<in> set evs. \<not> is_create e \<and> \<not> is_delete e))
     \<and> (no_faults w1 \<longrightarrow> out2 = Returned None \<and>
           logs w2 = logs w1 @ concat (map (\<lambda>(k, v). [LogRead v, LogUpdate k v]) kvs2))"
proof -
  have o: "Returned None = Returned None \<or> Returned None = Exited 0" by simp
  from synchronize_written(3) [OF rng1 run1 o]
  have "\<forall>(k, v) \<in> set kvs1. \<exists>data. payload c token v = Some data \<and>
           only_named k (written k data v) (store w1 (Namespace c))" .
  moreover have "set kvs1 = set kvs2" using rng1 rng2 by (simp add: range_of_set)
  ultimately have inv: "\<forall>(k, v) \<in> set kvs2. \<exists>data. payload c token v = Some data \<and>
           only_named k (written k data v) (store w1 (Namespace c))" by simp
  have conv: "managed_names (store w1 (Namespace c)) \<subseteq> desired c"
    using synchronize_converges [OF rng1 run1 ok1] by simp
  from synchronize_again [OF inv conv run2] show ?thesis by blast
qed

theorem idempotence_witness:
  "range_of (Secrets (ex_config [(''a'', ''kv/a''), (''b'', ''kv/b'')])) [(''b'', ''kv/b''), (''a'', ''kv/a'')]
   \<and> range_of (Secrets (ex_config [(''a'', ''kv/a''), (''b'', ''kv/b'')])) [(''a'', ''kv/a''), (''b'', ''kv/b'')]
   \<and> fst (synchronize (ex_config [(''a'', ''kv/a''), (''b'', ''kv/b'')]) [(''b'', ''kv/b''), (''a'', ''kv/a'')] ''t''
        (ex_world [ex_old, ex_secret ''c'' (Some ''kv/c''), ex_secret ''d'' None] [])) = Returned None
   \<and> no_faults (snd (synchronize (ex_config [(''a'', ''kv/a''), (''b'', ''kv/b'')])
        [(''b'', ''kv/b''), (''a'', ''kv/a'')] ''t''
        (ex_world [ex_old, ex_secret ''c'' (Some ''kv/c''), ex_secret ''d'' None] [])))
   \<and> store (snd (synchronize (ex_config [(''a'', ''kv/a''), (''b'', ''kv/b'')]) [(''a'', ''kv/a''), (''b'', ''kv/b'')] ''t''
        (snd (synchronize (ex_config [(''a'', ''kv/a''), (''b'', ''kv/b'')]) [(''b'', ''kv/b''), (''a'', ''kv/a'')] ''t''
          (ex_world [ex_old, ex_secret ''c'' (Some ''kv/c''), ex_secret ''d'' None] [])))))
     = store (snd (synchronize (ex_config [(''a'', ''kv/a''), (''b'', ''kv/b'')]) [(''b'', ''kv/b''), (''a'', ''kv/a'')] ''t''
          (ex_world [ex_old, ex_secret ''c'' (Some ''kv/c''), ex_secret ''d'' None] [])))
   \<and> fst (synchronize (ex_config [(''a'', ''kv/a''), (''b'', ''kv/b'')]) [(''a'', ''kv/a''), (''b'', ''kv/b'')] ''t''
        (snd (synchronize (ex_config [(''a'', ''kv/a''), (''b'', ''kv/b'')]) [(''b'', ''kv/b''), (''a'', ''kv/a'')] ''t''
          (ex_world [ex_old, ex_secret ''c'' (Some ''kv/c''), ex_secret ''d'' None] [])))) = Returned None
   \<and> logs (snd (synchronize (ex_config [(''a'', ''kv/a''), (''b'', ''kv/b'')]) [(''a'', ''kv/a''), (''b'', ''kv/b'')] ''t''
        (snd (synchronize (ex_config [(''a'', ''kv/a''), (''b'', ''kv/b'')]) [(''b'', ''kv/b''), (''a'', ''kv/a'')] ''t''
          (ex_world [ex_old, ex_secret ''c'' (Some ''kv/c''), ex_secret ''d'' None] [])))))
     = [LogRead ''kv/b'', LogCreate ''b'' ''kv/b'', LogRead ''kv/a'', LogUpdate ''a'' ''kv/a'', LogDelete ''c'',
        LogRead ''kv/a'', LogUpdate ''a'' ''kv/a'', LogRead ''kv/b'', LogUpdate ''b'' ''kv/b'']"
proof -
  let ?c = "ex_config [(''a'', ''kv/a''), (''b'', ''kv/b'')]"
  let ?k1 = "[(''b'', ''kv/b''), (''a'', ''kv/a'')]"
  let ?k2 = "[(''a'', ''kv/a''), (''b'', ''kv/b'')]"
  let ?w = "ex_world [ex_old, ex_secret ''c'' (Some ''kv/c''), ex_secret ''d'' None] []"
  let ?w1 = "snd (synchronize ?c ?k1 ''t'' ?w)"
  have h1: "range_of (Secrets ?c) ?k1" and h2: "range_of (Secrets ?c) ?k2"
    by (simp_all add: range_of_def ex_config_def)
  have f: "fst (synchronize ?c ?k1 ''t'' ?w) = Returned None"
    by (simp add: ex_defs ex_old_def run_defs)
  then have h3: "synchronize ?c ?k1 ''t'' ?w = (Returned None, ?w1)" by (metis prod.collapse)
  have l: "logs ?w1 =
      [LogRead ''kv/b'', LogCreate ''b'' ''kv/b'', LogRead ''kv/a'', LogUpdate ''a'' ''kv/a'', LogDelete ''c'']"
    by (simp add: ex_defs ex_old_def run_defs)
  then have h4: "\<forall>e \<in> set (logs ?w1). \<not> is_delete_failed e" by simp
  have h5: "synchronize ?c ?k2 ''t'' ?w1 =
      (fst (synchronize ?c ?k2 ''t'' ?w1), snd (synchronize ?c ?k2 ''t'' ?w1))" by simp
  have n: "no_faults ?w1" by (simp add: no_faults_def ex_defs ex_old_def run_defs)
  note t = idempotence [OF h1 h2 h3 h4 h5]
  from t have a: "store (snd (synchronize ?c ?k2 ''t'' ?w1)) = store ?w1" by blast
  from t n have b: "fst (synchronize ?c ?k2 ''t'' ?w1) = Returned None"
    "logs (snd (synchronize ?c ?k2 ''t'' ?w1)) =
       logs ?w1 @ concat (map (\<lambda>(k, v). [LogRead v, LogUpdate k v]) ?k2)" by blast+
  from b(2) l have c: "logs (snd (synchronize ?c ?k2 ''t'' ?w1)) =
      [LogRead ''kv/b'', LogCreate ''b'' ''kv/b'', LogRead ''kv/a'', LogUpdate ''a'' ''kv/a'', LogDelete ''c'',
        LogRead ''kv/a'', LogUpdate ''a'' ''kv/a'', LogRead ''kv/b'', LogUpdate ''b'' ''kv/b'']"
    by simp
  from h1 h2 f n a b(1) c show ?thesis by blast
qed

text \<open>
  C8, as the specification words it (for every run), does not hold: the deletions are
  best effort. A first run whose \<^verbatim>\<open>Delete\<close> of the obsolete secret \<open>c\<close> fails still returns
  nil and leaves \<open>c\<close> and \<open>a\<close>; the second run deletes \<open>c\<close>, so it performs a deletion
  and ends with another set of secrets.
\<close>

theorem idempotence_counterexample:
  "fst (synchronize (ex_config [(''a'', ''kv/a'')]) [(''a'', ''kv/a'')] ''t''
        (ex_world [ex_secret ''c'' (Some ''kv/c'')] [None, None, None, Some Unavailable])) = Returned None
   \<and> map Name (store (snd (synchronize (ex_config [(''a'', ''kv/a'')]) [(''a'', ''kv/a'')] ''t''
        (ex_world [ex_secret ''c'' (Some ''kv/c'')] [None, None, None, Some Unavailable]))) ''default'') =
       [''c'', ''a'']
   \<and> fst (synchronize (ex_config [(''a'', ''kv/a'')]) [(''a'', ''kv/a'')] ''t''
        (snd (synchronize (ex_config [(''a'', ''kv/a'')]) [(''a'', ''kv/a'')] ''t''
          (ex_world [ex_secret ''c'' (Some ''kv/c'')] [None, None, None, Some Unavailable])))) = Returned None
   \<and> map Name (store (snd (synchronize (ex_config [(''a'', ''kv/a'')]) [(''a'', ''kv/a'')] ''t''
        (snd (synchronize (ex_config [(''a'', ''kv/a'')]) [(''a'', ''kv/a'')] ''t''
          (ex_world [ex_secret ''c'' (Some ''kv/c'')] [None, None, None, Some Unavailable])))))
        ''default'') = [''a'']
   \<and> logs (snd (synchronize (ex_config [(''a'', ''kv/a'')]) [(''a'', ''kv/a'')] ''t''
        (snd (synchronize (ex_config [(''a'', ''kv/a'')]) [(''a'', ''kv/a'')] ''t''
          (ex_world [ex_secret ''c'' (Some ''kv/c'')] [None, None, None, Some Unavailable]))))) =
       [LogRead ''kv/a'', LogCreate ''a'' ''kv/a'', LogDelete ''c'',
        LogDeleteFailed (Wrap (Status (Failure Unavailable)) ''delete obsolete vault secret c failed''),
        LogRead ''kv/a'', LogUpdate ''a'' ''kv/a'', LogDelete ''c'']"
  by (simp add: ex_defs run_defs)

end
